theory Spec2Isabelle
  imports Complex_Main
begin

section \<open>Barnard's exact test (\<open>scipy/stats/_hypotests.py\<close>)\<close>

text \<open>
  The development embeds \<open>barnard_exact\<close>, \<open>_compute_log_combinations\<close> and
  \<open>_binomial_maximisation_of_p_value_with_nuisance_param\<close>.

  Numbers. A NumPy \<open>float64\<close> is modelled by the type \<open>fl\<close>: a real number, one of the
  two infinities, or not-a-number. The arithmetic on \<open>fl\<close> follows IEEE 754 for the special
  values (\<open>x / 0\<close>, \<open>0 / 0\<close>, \<open>inf - inf\<close>, \<open>0 * inf\<close>, \<open>log 0\<close>, comparisons with NaN) and
  is exact on finite values: rounding, overflow to infinity, underflow and the sign of zero
  are not modelled, so no statement below is about the last bits of a result. Integer arrays (\<open>int64\<close>) are modelled by unbounded integers; the arrays
  of the program have \<open>(c1+1) * (c2+1) * 100\<close> elements, so every table the program can
  process has totals far below \<open>2^63\<close>.
\<close>

subsection \<open>Floating-point values with IEEE special values\<close>

datatype fl = Fin real | PInf | MInf | NaN

fun is_nan :: "fl \<Rightarrow> bool" where
  "is_nan NaN = True"
| "is_nan _ = False"

fun is_fin :: "fl \<Rightarrow> bool" where
  "is_fin (Fin _) = True"
| "is_fin _ = False"

fun fneg :: "fl \<Rightarrow> fl" where
  "fneg (Fin a) = Fin (- a)"
| "fneg PInf = MInf"
| "fneg MInf = PInf"
| "fneg NaN = NaN"

fun fabs :: "fl \<Rightarrow> fl" where
  "fabs (Fin a) = Fin \<bar>a\<bar>"
| "fabs PInf = PInf"
| "fabs MInf = PInf"
| "fabs NaN = NaN"

fun fadd :: "fl \<Rightarrow> fl \<Rightarrow> fl" where
  "fadd (Fin a) (Fin b) = Fin (a + b)"
| "fadd NaN _ = NaN"
| "fadd _ NaN = NaN"
| "fadd PInf MInf = NaN"
| "fadd MInf PInf = NaN"
| "fadd PInf _ = PInf"
| "fadd _ PInf = PInf"
| "fadd MInf _ = MInf"
| "fadd _ MInf = MInf"

definition fsub :: "fl \<Rightarrow> fl \<Rightarrow> fl" where
  "fsub x y = fadd x (fneg y)"

text \<open>The sign of a value: \<open>1\<close>, \<open>-1\<close>, or \<open>0\<close> for zero (NaN is handled by the callers).\<close>

fun fsign :: "fl \<Rightarrow> int" where
  "fsign (Fin a) = (if a > 0 then 1 else if a < 0 then - 1 else 0)"
| "fsign PInf = 1"
| "fsign MInf = - 1"
| "fsign NaN = 0"

definition inf_of_sign :: "int \<Rightarrow> fl" where
  "inf_of_sign s = (if s > 0 then PInf else if s < 0 then MInf else NaN)"

fun fmul :: "fl \<Rightarrow> fl \<Rightarrow> fl" where
  "fmul (Fin a) (Fin b) = Fin (a * b)"
| "fmul NaN _ = NaN"
| "fmul _ NaN = NaN"
| "fmul x y = inf_of_sign (fsign x * fsign y)"

fun fdiv :: "fl \<Rightarrow> fl \<Rightarrow> fl" where
  "fdiv (Fin a) (Fin b) = (if b = 0 then inf_of_sign (fsign (Fin a)) else Fin (a / b))"
| "fdiv NaN _ = NaN"
| "fdiv _ NaN = NaN"
| "fdiv (Fin a) _ = Fin 0"
| "fdiv x (Fin b) = inf_of_sign (fsign x * (if b < 0 then - 1 else 1))"
| "fdiv _ _ = NaN"

fun fsqrt :: "fl \<Rightarrow> fl" where
  "fsqrt (Fin a) = (if a < 0 then NaN else Fin (sqrt a))"
| "fsqrt PInf = PInf"
| "fsqrt MInf = NaN"
| "fsqrt NaN = NaN"

fun flog :: "fl \<Rightarrow> fl" where
  "flog (Fin a) = (if a < 0 then NaN else if a = 0 then MInf else Fin (ln a))"
| "flog PInf = PInf"
| "flog MInf = NaN"
| "flog NaN = NaN"

fun fexp :: "fl \<Rightarrow> fl" where
  "fexp (Fin a) = Fin (exp a)"
| "fexp PInf = PInf"
| "fexp MInf = Fin 0"
| "fexp NaN = NaN"

text \<open>Comparisons: every comparison with NaN is false.\<close>

fun fle :: "fl \<Rightarrow> fl \<Rightarrow> bool" where
  "fle NaN _ = False"
| "fle _ NaN = False"
| "fle (Fin a) (Fin b) = (a \<le> b)"
| "fle MInf _ = True"
| "fle _ PInf = True"
| "fle _ _ = False"

definition fge :: "fl \<Rightarrow> fl \<Rightarrow> bool" where
  "fge x y = fle y x"

fun feq :: "fl \<Rightarrow> fl \<Rightarrow> bool" where
  "feq NaN _ = False"
| "feq _ NaN = False"
| "feq x y = (x = y)"

definition fgt :: "fl \<Rightarrow> fl \<Rightarrow> bool" where
  "fgt x y = (fle y x \<and> \<not> feq x y)"

definition of_int64 :: "int \<Rightarrow> fl" where
  "of_int64 i = Fin (of_int i)"

text \<open>
  \<open>.sum()\<close> over an array: the entries are added one after the other, in row-major order,
  starting from \<open>0\<close>.
\<close>

definition fsum :: "fl list \<Rightarrow> fl" where
  "fsum xs = foldl fadd (Fin 0) xs"

subsection \<open>Library functions used by the program\<close>

text \<open>
  \<open>np.linspace(start, stop, num)\<close> with the default \<open>endpoint=True\<close>: \<open>num\<close> evenly
  spaced samples \<open>start + i * step\<close> with \<open>step = (stop - start) / (num - 1)\<close>, the last
  sample being set to \<open>stop\<close>.
\<close>

definition np_linspace :: "fl \<Rightarrow> fl \<Rightarrow> nat \<Rightarrow> fl list" where
  "np_linspace start stop num =
     (let step = fdiv (fsub stop start) (of_int64 (int num - 1));
          y = map (\<lambda>i. fadd (fmul (of_int64 (int i)) step) start) [0..<num]
      in if num > 1 then y[num - 1 := stop] else y)"

text \<open>
  \<open>ndarray.argmax()\<close> on a one-dimensional \<open>float64\<close> array: a scan that keeps the
  first maximum, and that treats NaN as maximal (the scan stops at the first NaN). The
  scan carries the running maximum \<open>mp\<close>, its index \<open>max_ind\<close> and the current
  index \<open>i\<close>. (An empty array raises; the program only takes the \<open>argmax\<close> of arrays of
  \<open>nuisance_num\<close> entries.)
\<close>

fun argmax_scan :: "fl \<Rightarrow> nat \<Rightarrow> nat \<Rightarrow> fl list \<Rightarrow> nat" where
  "argmax_scan mp max_ind i [] = max_ind"
| "argmax_scan mp max_ind i (v # vs) =
     (if is_nan mp then max_ind
      else if \<not> fle v mp then argmax_scan v i (Suc i) vs
      else argmax_scan mp max_ind (Suc i) vs)"

definition np_argmax :: "fl list \<Rightarrow> nat" where
  "np_argmax xs = (case xs of [] \<Rightarrow> 0 | v # vs \<Rightarrow> argmax_scan v 0 1 vs)"

text \<open>
  Modelled from the spec: \<open>scipy.special.gammaln\<close> is not among the sources. The spec
  (4.1) describes the log-combinations as \<open>log C(n, k)\<close> computed as
  \<open>lgamma(n+1) - lgamma(k+1) - lgamma(n-k+1)\<close>, so that \<open>lgamma(m+1) = log(m!)\<close>; the
  program calls it on the integers \<open>1, ..., n + 1\<close> only. At the poles (integers below
  \<open>1\<close>) the value is infinite.
\<close>

definition gammaln :: "int \<Rightarrow> fl" where
  "gammaln z = (if z \<ge> 1 then Fin (ln (fact (nat (z - 1)))) else PInf)"

subsection \<open>\<open>_compute_log_combinations\<close>\<close>

definition compute_log_combinations :: "int \<Rightarrow> fl list" where
  "compute_log_combinations n =
     (let gammaln_arr = map (\<lambda>k. gammaln (k + 1)) [0..n]
      in map2 (\<lambda>a b. fsub (fsub (gammaln (n + 1)) a) b) gammaln_arr (rev gammaln_arr))"

subsection \<open>Errors and results\<close>

text \<open>
  Every \<open>raise ValueError(...)\<close> of \<open>barnard_exact\<close> is a \<open>ValueError\<close> carrying the
  reason. \<open>np.asarray(table, dtype=np.int64)\<close> raises a \<open>ValueError\<close> of its own on rows
  of different lengths. Reading \<open>p_values_arr\<close> after a loop that never ran raises
  \<open>UnboundLocalError\<close>.
\<close>

datatype reason =
    NIterNotPositive int
  | InhomogeneousShape
  | ShapeNot2x2
  | NegativeValues
  | BadAlternative string

datatype error = ValueError reason | UnboundLocalError

record BarnardExactResult =
  statistic :: fl
  pvalue :: fl

text \<open>
  The components of the computation, in the order in which \<open>barnard_exact\<close> enters them:
  the Wald statistic over the sample space (source lines 858 to 879), the rejection mask
  \<open>index_arr\<close> (881 to 886) and the maximisation over the nuisance parameter (894). The
  model returns, next to the outcome, the list of the components that were entered.
\<close>

datatype component = StatisticField | RejectionMask | NuisanceMaximizer

subsection \<open>The Wald statistic over the sample space\<close>

text \<open>One point \<open>(x1, x2)\<close> of the arrays \<open>p1\<close>, \<open>p2\<close>, \<open>variances\<close> and \<open>wald_statistic\<close>.\<close>

definition variance_at :: "int \<Rightarrow> int \<Rightarrow> bool \<Rightarrow> int \<Rightarrow> int \<Rightarrow> fl" where
  "variance_at total_col_1 total_col_2 pooled x1 x2 =
     (let p1 = fdiv (of_int64 x1) (of_int64 total_col_1);
          p2 = fdiv (of_int64 x2) (of_int64 total_col_2)
      in if pooled then
           (let p = fdiv (of_int64 (x1 + x2)) (of_int64 (total_col_1 + total_col_2))
            in fmul (fmul p (fsub (Fin 1) p))
                 (fadd (fdiv (Fin 1) (of_int64 total_col_1)) (fdiv (Fin 1) (of_int64 total_col_2))))
         else
           fadd (fdiv (fmul p1 (fsub (Fin 1) p1)) (of_int64 total_col_1))
                (fdiv (fmul p2 (fsub (Fin 1) p2)) (of_int64 total_col_2)))"

definition wald_statistic_at :: "int \<Rightarrow> int \<Rightarrow> bool \<Rightarrow> int \<Rightarrow> int \<Rightarrow> fl" where
  "wald_statistic_at total_col_1 total_col_2 pooled x1 x2 =
     (let p1 = fdiv (of_int64 x1) (of_int64 total_col_1);
          p2 = fdiv (of_int64 x2) (of_int64 total_col_2);
          variances = variance_at total_col_1 total_col_2 pooled x1 x2;
          wald_statistic = fdiv (fsub p1 p2) (fsqrt variances)
      in if feq p1 p2 then Fin 0 else wald_statistic)"

text \<open>The array \<open>wald_statistic\<close>, of shape \<open>(total_col_1 + 1, total_col_2 + 1)\<close>.\<close>

definition wald_statistic :: "int \<Rightarrow> int \<Rightarrow> bool \<Rightarrow> fl list list" where
  "wald_statistic total_col_1 total_col_2 pooled =
     map (\<lambda>x1. map (\<lambda>x2. wald_statistic_at total_col_1 total_col_2 pooled x1 x2)
                 [0..total_col_2])
         [0..total_col_1]"

subsection \<open>The rejection mask\<close>

text \<open>The \<open>if\<close>/\<open>elif\<close> chain on \<open>alternative\<close>; \<open>None\<close> is its \<open>else\<close> branch.\<close>

definition index_arr :: "string \<Rightarrow> fl list list \<Rightarrow> fl \<Rightarrow> bool list list option" where
  "index_arr alternative wald wald_stat_obs =
     (if alternative = ''two-sided'' then
        Some (map (map (\<lambda>t. fge (fabs t) (fabs wald_stat_obs))) wald)
      else if alternative = ''less'' then
        Some (map (map (\<lambda>t. fle t wald_stat_obs)) wald)
      else if alternative = ''greater'' then
        Some (map (map (\<lambda>t. fge t wald_stat_obs)) wald)
      else None)"

subsection \<open>\<open>_binomial_maximisation_of_p_value_with_nuisance_param\<close>\<close>

text \<open>
  The source holds the candidates of one round in an array of shape \<open>(1, 1, 100)\<close> and
  broadcasts it against the sample space, giving arrays of shape
  \<open>(total_c1 + 1, total_c2 + 1, 100)\<close>. The model keeps the axis of the candidates
  outermost: each definition below is the slice of the source's array at one candidate
  \<open>nuisance\<close>, and the arrays over the candidates are maps over \<open>nuisance_arr\<close>.
\<close>

definition nuisance_num :: nat where
  "nuisance_num = 100"

definition x1_sum_x2_log_comb :: "int \<Rightarrow> int \<Rightarrow> fl list list" where
  "x1_sum_x2_log_comb total_c1 total_c2 =
     (let x1_log_comb = compute_log_combinations total_c1;
          x2_log_comb = compute_log_combinations total_c2
      in map (\<lambda>x1. map (\<lambda>x2. fadd (x1_log_comb ! nat x1) (x2_log_comb ! nat x2))
                      [0..total_c2])
             [0..total_c1])"

text \<open>\<open>np.log(a, out=np.zeros_like(a), where=a >= 0)\<close>, for \<open>a\<close> the candidate and \<open>1 - a\<close>.\<close>

definition log_nuisance_arr :: "fl \<Rightarrow> fl" where
  "log_nuisance_arr nuisance =
     (if fge nuisance (Fin 0) then flog nuisance else Fin 0)"

definition log_1_minus_nuisance_arr :: "fl \<Rightarrow> fl" where
  "log_1_minus_nuisance_arr nuisance =
     (if fge (fsub (Fin 1) nuisance) (Fin 0) then flog (fsub (Fin 1) nuisance) else Fin 0)"

text \<open>
  The products with the exponents, followed by the assignments of \<open>0\<close> at the points
  where \<open>x1 + x2 == 0\<close>, respectively \<open>x1 + x2 == n\<close>.
\<close>

definition nuisance_power_x1_x2 :: "fl \<Rightarrow> int \<Rightarrow> int \<Rightarrow> fl" where
  "nuisance_power_x1_x2 nuisance x1 x2 =
     (let product = fmul (log_nuisance_arr nuisance) (of_int64 (x1 + x2))
      in if x1 + x2 = 0 then Fin 0 else product)"

definition nuisance_power_n_minus_x1_x2 :: "int \<Rightarrow> fl \<Rightarrow> int \<Rightarrow> int \<Rightarrow> fl" where
  "nuisance_power_n_minus_x1_x2 n nuisance x1 x2 =
     (let product = fmul (log_1_minus_nuisance_arr nuisance) (of_int64 (n - x1 - x2))
      in if x1 + x2 = n then Fin 0 else product)"

text \<open>
  \<open>tmp_values_arr\<close> before the division by its sum over the sample space: one point, and
  the array over the sample space.
\<close>

definition tmp_values_at :: "int \<Rightarrow> int \<Rightarrow> fl \<Rightarrow> int \<Rightarrow> int \<Rightarrow> fl" where
  "tmp_values_at total_c1 total_c2 nuisance x1 x2 =
     (let n = total_c1 + total_c2;
          comb = x1_sum_x2_log_comb total_c1 total_c2
      in fexp (fadd (fadd (comb ! nat x1 ! nat x2) (nuisance_power_x1_x2 nuisance x1 x2))
                    (nuisance_power_n_minus_x1_x2 n nuisance x1 x2)))"

definition tmp_values_arr :: "int \<Rightarrow> int \<Rightarrow> fl \<Rightarrow> fl list list" where
  "tmp_values_arr total_c1 total_c2 nuisance =
     map (\<lambda>x1. map (\<lambda>x2. tmp_values_at total_c1 total_c2 nuisance x1 x2) [0..total_c2])
         [0..total_c1]"

text \<open>\<open>tmp_values_arr\<close> after the division by its sum.\<close>

definition tmp_values_arr_normalised :: "int \<Rightarrow> int \<Rightarrow> fl \<Rightarrow> fl list list" where
  "tmp_values_arr_normalised total_c1 total_c2 nuisance =
     (let tmp = tmp_values_arr total_c1 total_c2 nuisance;
          total = fsum (concat tmp)
      in map (map (\<lambda>v. fdiv v total)) tmp)"

text \<open>
  \<open>a[idx]\<close> for a boolean mask \<open>idx\<close> of the shape of the sample space: the entries of \<open>a\<close>
  where the mask holds, in row-major order.
\<close>

definition select_mask :: "bool list list \<Rightarrow> fl list list \<Rightarrow> fl list" where
  "select_mask idx a = map fst (filter snd (zip (concat a) (concat idx)))"

definition p_values_arr :: "int \<Rightarrow> int \<Rightarrow> bool list list \<Rightarrow> fl list \<Rightarrow> fl list" where
  "p_values_arr total_c1 total_c2 idx nuisance_arr =
     map (\<lambda>nuisance. fsum (select_mask idx (tmp_values_arr_normalised total_c1 total_c2 nuisance)))
         nuisance_arr"

text \<open>
  The state of the loop: the bracket, and the variables \<open>nuisance_arr\<close>, \<open>p_values_arr\<close> and
  \<open>max_pvalue_index\<close>, which are unbound until the first round has run.
\<close>

record search_state =
  inf_bound :: fl
  sup_bound :: fl
  last_round :: "(fl list \<times> fl list \<times> nat) option"

definition initial_state :: search_state where
  "initial_state = \<lparr>inf_bound = Fin 0, sup_bound = Fin 1, last_round = None\<rparr>"

definition grid_round :: "int \<Rightarrow> int \<Rightarrow> bool list list \<Rightarrow> search_state \<Rightarrow> search_state" where
  "grid_round total_c1 total_c2 idx s =
     (let nuisance_arr = np_linspace (inf_bound s) (sup_bound s) nuisance_num;
          p_values = p_values_arr total_c1 total_c2 idx nuisance_arr;
          max_pvalue_index = np_argmax p_values
      in \<lparr>inf_bound =
            (if max_pvalue_index > 0 then nuisance_arr ! (max_pvalue_index - 1)
             else nuisance_arr ! 0),
          sup_bound =
            (if max_pvalue_index < nuisance_num - 1 then nuisance_arr ! (max_pvalue_index + 1)
             else last nuisance_arr),
          last_round = Some (nuisance_arr, p_values, max_pvalue_index)\<rparr>)"

text \<open>\<open>for _ in range(n_iter)\<close>: the state after \<open>k\<close> rounds.\<close>

primrec grid_search :: "nat \<Rightarrow> int \<Rightarrow> int \<Rightarrow> bool list list \<Rightarrow> search_state" where
  "grid_search 0 total_c1 total_c2 idx = initial_state"
| "grid_search (Suc k) total_c1 total_c2 idx =
     grid_round total_c1 total_c2 idx (grid_search k total_c1 total_c2 idx)"

definition binomial_maximisation_of_p_value_with_nuisance_param ::
    "int \<Rightarrow> int \<Rightarrow> bool list list \<Rightarrow> int \<Rightarrow> error + fl" where
  "binomial_maximisation_of_p_value_with_nuisance_param total_c1 total_c2 idx n_iter =
     (case last_round (grid_search (nat n_iter) total_c1 total_c2 idx) of
        None \<Rightarrow> Inl UnboundLocalError
      | Some (nuisance_arr, p_values, max_pvalue_index) \<Rightarrow>
          (let p_value = p_values ! max_pvalue_index
           in Inr (if fgt p_value (Fin 1) then Fin 1 else p_value)))"

subsection \<open>\<open>barnard_exact\<close>\<close>

text \<open>
  The argument \<open>table\<close> is a nested list of integers. \<open>np.asarray\<close> rejects rows of
  different lengths; otherwise the shape is \<open>(len(table), len(table[0]))\<close>, and \<open>(0,)\<close> for
  the empty list.
\<close>

definition inhomogeneous :: "int list list \<Rightarrow> bool" where
  "inhomogeneous table = list_ex (\<lambda>r. length r \<noteq> length (hd table)) table"

definition shape :: "int list list \<Rightarrow> nat list" where
  "shape table = (if table = [] then [0] else [length table, length (hd table)])"

text \<open>\<open>np.any(table < 0)\<close> and \<open>table.sum(axis=0)\<close> on an array of shape \<open>(2, 2)\<close>.\<close>

definition any_negative :: "int list list \<Rightarrow> bool" where
  "any_negative table = list_ex (list_ex (\<lambda>v. v < 0)) table"

definition sum_axis0 :: "int list list \<Rightarrow> int list" where
  "sum_axis0 table = [table ! 0 ! 0 + table ! 1 ! 0, table ! 0 ! 1 + table ! 1 ! 1]"

definition barnard_exact ::
    "int list list \<Rightarrow> string \<Rightarrow> bool \<Rightarrow> int \<Rightarrow> component list \<times> (error + BarnardExactResult)" where
  "barnard_exact table alternative pooled n_iter =
     (if n_iter \<le> 0 then ([], Inl (ValueError (NIterNotPositive n_iter)))
      else if inhomogeneous table then ([], Inl (ValueError InhomogeneousShape))
      else if shape table \<noteq> [2, 2] then ([], Inl (ValueError ShapeNot2x2))
      else if any_negative table then ([], Inl (ValueError NegativeValues))
      else if 0 \<in> set (sum_axis0 table) then ([], Inr \<lparr>statistic = NaN, pvalue = Fin 1\<rparr>)
      else
        (let total_col_1 = sum_axis0 table ! 0;
             total_col_2 = sum_axis0 table ! 1;
             wald = wald_statistic total_col_1 total_col_2 pooled;
             wald_stat_obs = wald ! nat (table ! 0 ! 0) ! nat (table ! 0 ! 1)
         in case index_arr alternative wald wald_stat_obs of
              None \<Rightarrow> ([StatisticField], Inl (ValueError (BadAlternative alternative)))
            | Some idx \<Rightarrow>
                ([StatisticField, RejectionMask, NuisanceMaximizer],
                 case binomial_maximisation_of_p_value_with_nuisance_param
                        total_col_1 total_col_2 idx n_iter of
                   Inl e \<Rightarrow> Inl e
                 | Inr p_value \<Rightarrow> Inr \<lparr>statistic = wald_stat_obs, pvalue = p_value\<rparr>)))"

subsection \<open>The formulas of the specification\<close>

text \<open>
  The variance of the specification (4.2), over the reals, for column totals \<open>c1\<close>,
  \<open>c2\<close> and the point \<open>(x1, x2)\<close>.
\<close>

definition spec_variance :: "int \<Rightarrow> int \<Rightarrow> bool \<Rightarrow> int \<Rightarrow> int \<Rightarrow> real" where
  "spec_variance c1 c2 pooled x1 x2 =
     (let p1 = real_of_int x1 / real_of_int c1;
          p2 = real_of_int x2 / real_of_int c2;
          p = real_of_int (x1 + x2) / real_of_int (c1 + c2)
      in if pooled then p * (1 - p) * (1 / real_of_int c1 + 1 / real_of_int c2)
         else p1 * (1 - p1) / real_of_int c1 + p2 * (1 - p2) / real_of_int c2)"

section \<open>Validation and the degenerate table\<close>

lemma table_2x2_checks:
  "\<not> inhomogeneous [[a, b], [c, d]]"
  "shape [[a, b], [c, d]] = [2, 2]"
  "any_negative [[a, b], [c, d]] = (a < 0 \<or> b < 0 \<or> c < 0 \<or> d < 0)"
  "sum_axis0 [[a, b], [c, d]] = [a + c, b + d]"
  by (auto simp: inhomogeneous_def shape_def any_negative_def sum_axis0_def)

text \<open>The tables that pass \<open>np.asarray\<close> and the shape check are the lists \<open>[[a, b], [c, d]]\<close>.\<close>

lemma shape_2x2_iff:
  "\<not> inhomogeneous table \<and> shape table = [2, 2] \<longleftrightarrow> (\<exists>a b c d. table = [[a, b], [c, d]])"
proof
  assume h: "\<not> inhomogeneous table \<and> shape table = [2, 2]"
  then have l: "length table = 2" and lh: "length (hd table) = 2"
    by (auto simp: shape_def split: if_splits)
  from l obtain r1 r2 where t: "table = [r1, r2]"
    by (metis (no_types, opaque_lifting) One_nat_def Suc_1 length_0_conv length_Suc_conv)
  with h lh have "length r1 = 2" "length r2 = 2"
    by (auto simp: inhomogeneous_def)
  then obtain a b c d where "r1 = [a, b]" "r2 = [c, d]"
    by (metis (no_types, opaque_lifting) One_nat_def Suc_1 length_0_conv length_Suc_conv)
  with t show "\<exists>a b c d. table = [[a, b], [c, d]]" by blast
next
  assume "\<exists>a b c d. table = [[a, b], [c, d]]"
  then show "\<not> inhomogeneous table \<and> shape table = [2, 2]"
    by (auto simp: table_2x2_checks)
qed

text \<open>
  C7. When \<open>n_iter \<le> 0\<close>, or the table does not have shape \<open>(2, 2)\<close> (rows of different
  lengths included), or the table has a negative entry, \<open>barnard_exact\<close> raises a
  \<open>ValueError\<close>: it returns no result, and none of the statistic field, the rejection mask
  and the maximisation has been entered.
\<close>

theorem barnard_exact_rejects_invalid_input:
  assumes "n_iter \<le> 0 \<or> inhomogeneous table \<or> shape table \<noteq> [2, 2] \<or> any_negative table"
  shows "\<exists>r. barnard_exact table alternative pooled n_iter = ([], Inl (ValueError r))"
  using assms by (auto simp: barnard_exact_def)

theorem barnard_exact_rejects_invalid_input_witness:
  "any_negative [[7, 12], [8, - 3]] \<and>
   (\<exists>r. barnard_exact [[7, 12], [8, - 3]] ''less'' True 3 = ([], Inl (ValueError r))) \<and>
   shape [[7, 12, 1], [8, 3, 1]] \<noteq> [2, 2] \<and>
   (\<exists>r. barnard_exact [[7, 12, 1], [8, 3, 1]] ''less'' True 3 = ([], Inl (ValueError r))) \<and>
   (0::int) \<le> 0 \<and>
   (\<exists>r. barnard_exact [[7, 12], [8, 3]] ''less'' True 0 = ([], Inl (ValueError r)))"
  using barnard_exact_rejects_invalid_input [of 3 "[[7, 12], [8, - 3]]" "''less''" True]
    barnard_exact_rejects_invalid_input [of 3 "[[7, 12, 1], [8, 3, 1]]" "''less''" True]
    barnard_exact_rejects_invalid_input [of 0 "[[7, 12], [8, 3]]" "''less''" True]
  by (simp add: any_negative_def shape_def)

text \<open>
  C3. For a table \<open>[[a, b], [c, d]]\<close> of non-negative integers with a column that sums to
  \<open>0\<close>, and \<open>n_iter > 0\<close>, \<open>barnard_exact\<close> returns the statistic NaN and the p-value \<open>1\<close>
  for every \<open>alternative\<close> (recognised or not) and every \<open>pooled\<close>, and none of the
  statistic field, the rejection mask and the maximisation has been entered.
\<close>

theorem barnard_exact_degenerate:
  assumes "0 < n_iter" "0 \<le> a" "0 \<le> b" "0 \<le> c" "0 \<le> d" "a + c = 0 \<or> b + d = 0"
  shows "barnard_exact [[a, b], [c, d]] alternative pooled n_iter =
           ([], Inr \<lparr>statistic = NaN, pvalue = Fin 1\<rparr>)"
  using assms by (auto simp: barnard_exact_def table_2x2_checks)

theorem barnard_exact_degenerate_witness:
  "(0::int) < 3 \<and> (0::int) \<le> 0 \<and> (0::int) \<le> 4 \<and> (0::int) \<le> 0 \<and> (0::int) \<le> 5 \<and>
   ((0::int) + 0 = 0 \<or> (4::int) + 5 = 0) \<and>
   barnard_exact [[0, 4], [0, 5]] ''greater'' False 3 =
     ([], Inr \<lparr>statistic = NaN, pvalue = Fin 1\<rparr>)"
  using barnard_exact_degenerate [of 3 0 4 0 5 "''greater''" False]
  by simp

text \<open>
  C10. The order of the checks. A non-positive \<open>n_iter\<close> is reported whatever the table
  is; then a malformed shape is reported whatever the entries are; then a negative
  entry is reported; then a zero column sum gives (NaN, \<open>1\<close>), all of this whatever
  \<open>alternative\<close> is, so also when it is not a recognised string.
\<close>

theorem barnard_exact_check_order:
  "(n_iter \<le> 0 \<longrightarrow>
      barnard_exact table alternative pooled n_iter =
        ([], Inl (ValueError (NIterNotPositive n_iter)))) \<and>
   (0 < n_iter \<and> (inhomogeneous table \<or> shape table \<noteq> [2, 2]) \<longrightarrow>
      barnard_exact table alternative pooled n_iter =
        ([], Inl (ValueError (if inhomogeneous table then InhomogeneousShape else ShapeNot2x2)))) \<and>
   (0 < n_iter \<and> \<not> inhomogeneous table \<and> shape table = [2, 2] \<and> any_negative table \<longrightarrow>
      barnard_exact table alternative pooled n_iter = ([], Inl (ValueError NegativeValues))) \<and>
   (0 < n_iter \<and> \<not> inhomogeneous table \<and> shape table = [2, 2] \<and> \<not> any_negative table \<and>
    0 \<in> set (sum_axis0 table) \<longrightarrow>
      barnard_exact table alternative pooled n_iter =
        ([], Inr \<lparr>statistic = NaN, pvalue = Fin 1\<rparr>))"
  by (auto simp: barnard_exact_def)

theorem barnard_exact_check_order_witness:
  "barnard_exact [[0, 4], [0, 5]] ''both'' True 0 = ([], Inl (ValueError (NIterNotPositive 0))) \<and>
   barnard_exact [[0, - 4, 1], [0, 5, 1]] ''both'' True 3 = ([], Inl (ValueError ShapeNot2x2)) \<and>
   barnard_exact [[0, - 4], [0, 5]] ''both'' True 3 = ([], Inl (ValueError NegativeValues)) \<and>
   barnard_exact [[0, 4], [0, 5]] ''both'' True 3 =
     ([], Inr \<lparr>statistic = NaN, pvalue = Fin 1\<rparr>)"
  using barnard_exact_check_order [of 0 "[[0, 4], [0, 5]]" "''both''" True]
    barnard_exact_check_order [of 3 "[[0, - 4, 1], [0, 5, 1]]" "''both''" True]
    barnard_exact_check_order [of 3 "[[0, - 4], [0, 5]]" "''both''" True]
    barnard_exact_check_order [of 3 "[[0, 4], [0, 5]]" "''both''" True]
  by (simp add: inhomogeneous_def shape_def any_negative_def sum_axis0_def)

text \<open>
  C6, as stated, fails: the \<open>else\<close> branch that rejects \<open>alternative\<close> lies after the
  return for a zero column sum, so a table with a zero-sum column and an unrecognised
  \<open>alternative\<close> gets the result (NaN, \<open>1\<close>) and no error.
\<close>

theorem degenerate_table_skips_alternative_counterexample:
  "''both'' \<notin> {''two-sided'', ''less'', ''greater''} \<and>
   barnard_exact [[0, 4], [0, 5]] ''both'' True 3 =
     ([], Inr \<lparr>statistic = NaN, pvalue = Fin 1\<rparr>)"
  by (simp add: barnard_exact_def inhomogeneous_def shape_def any_negative_def sum_axis0_def)

text \<open>
  C6, amended. For an \<open>alternative\<close> that is none of \<open>two-sided\<close>, \<open>less\<close>, \<open>greater\<close>:
  an input that fails one of the earlier checks raises the \<open>ValueError\<close> of that check;
  a valid table with a zero column sum returns (NaN, \<open>1\<close>); a valid table with positive
  column sums raises the \<open>ValueError\<close> for \<open>alternative\<close>, after the statistic field has
  been computed and before the rejection mask and the maximisation.
\<close>

theorem unrecognised_alternative:
  assumes "alternative \<notin> {''two-sided'', ''less'', ''greater''}"
  shows "(n_iter \<le> 0 \<or> inhomogeneous table \<or> shape table \<noteq> [2, 2] \<or> any_negative table \<longrightarrow>
            (\<exists>r. barnard_exact table alternative pooled n_iter = ([], Inl (ValueError r)))) \<and>
         (0 < n_iter \<and> \<not> inhomogeneous table \<and> shape table = [2, 2] \<and> \<not> any_negative table \<and>
          0 \<in> set (sum_axis0 table) \<longrightarrow>
            barnard_exact table alternative pooled n_iter =
              ([], Inr \<lparr>statistic = NaN, pvalue = Fin 1\<rparr>)) \<and>
         (0 < n_iter \<and> \<not> inhomogeneous table \<and> shape table = [2, 2] \<and> \<not> any_negative table \<and>
          0 \<notin> set (sum_axis0 table) \<longrightarrow>
            barnard_exact table alternative pooled n_iter =
              ([StatisticField], Inl (ValueError (BadAlternative alternative))))"
  using assms by (auto simp: barnard_exact_def index_arr_def Let_def)

theorem unrecognised_alternative_witness:
  "''both'' \<notin> {''two-sided'', ''less'', ''greater''} \<and>
   (\<exists>r. barnard_exact [[7, 12], [8, 3]] ''both'' True 0 = ([], Inl (ValueError r))) \<and>
   barnard_exact [[0, 4], [0, 5]] ''both'' True 3 =
     ([], Inr \<lparr>statistic = NaN, pvalue = Fin 1\<rparr>) \<and>
   barnard_exact [[7, 12], [8, 3]] ''both'' True 3 =
     ([StatisticField], Inl (ValueError (BadAlternative ''both'')))"
  using unrecognised_alternative [of "''both''" 0 "[[7, 12], [8, 3]]" True]
    unrecognised_alternative [of "''both''" 3 "[[0, 4], [0, 5]]" True]
    unrecognised_alternative [of "''both''" 3 "[[7, 12], [8, 3]]" True]
  by (simp add: inhomogeneous_def shape_def any_negative_def sum_axis0_def)

section \<open>The Wald statistic\<close>

text \<open>Indexing the arrays over \<open>np.arange(n + 1)\<close>.\<close>

lemma nth_map_upto0: "0 \<le> i \<Longrightarrow> i \<le> n \<Longrightarrow> map f [0..n] ! nat i = f i"
  by (simp add: nth_upto)

lemma fsub_Fin [simp]: "fsub (Fin a) (Fin b) = Fin (a - b)"
  by (simp add: fsub_def)

lemma wald_statistic_nth:
  "0 \<le> x1 \<Longrightarrow> x1 \<le> c1 \<Longrightarrow> 0 \<le> x2 \<Longrightarrow> x2 \<le> c2 \<Longrightarrow>
   wald_statistic c1 c2 pooled ! nat x1 ! nat x2 = wald_statistic_at c1 c2 pooled x1 x2"
  by (simp add: wald_statistic_def nth_map_upto0)

lemma variance_at_Fin:
  "c1 \<noteq> 0 \<Longrightarrow> c2 \<noteq> 0 \<Longrightarrow> c1 + c2 \<noteq> 0 \<Longrightarrow>
   variance_at c1 c2 pooled x1 x2 = Fin (spec_variance c1 c2 pooled x1 x2)"
  by (simp add: variance_at_def spec_variance_def of_int64_def Let_def)

lemma spec_variance_nonneg:
  assumes "0 < c1" "0 < c2" "0 \<le> x1" "x1 \<le> c1" "0 \<le> x2" "x2 \<le> c2"
  shows "0 \<le> spec_variance c1 c2 pooled x1 x2"
proof -
  have u: "0 \<le> q * (1 - q)" if "0 \<le> q" "q \<le> 1" for q :: real
    using that by simp
  have p1: "0 \<le> real_of_int x1 / real_of_int c1" "real_of_int x1 / real_of_int c1 \<le> 1"
    using assms by simp_all
  have p2: "0 \<le> real_of_int x2 / real_of_int c2" "real_of_int x2 / real_of_int c2 \<le> 1"
    using assms by simp_all
  have p: "0 \<le> real_of_int (x1 + x2) / real_of_int (c1 + c2)"
      "real_of_int (x1 + x2) / real_of_int (c1 + c2) \<le> 1"
    using assms by simp_all
  show ?thesis
  proof (cases pooled)
    case True
    have "0 \<le> 1 / real_of_int c1 + 1 / real_of_int c2" using assms by simp
    then have "0 \<le> real_of_int (x1 + x2) / real_of_int (c1 + c2) *
                 (1 - real_of_int (x1 + x2) / real_of_int (c1 + c2)) *
                 (1 / real_of_int c1 + 1 / real_of_int c2)"
      using u [OF p] by (rule mult_nonneg_nonneg [rotated])
    with True show ?thesis
      unfolding spec_variance_def Let_def by (simp only: if_True)
  next
    case False
    have "0 \<le> real_of_int x1 / real_of_int c1 * (1 - real_of_int x1 / real_of_int c1) / real_of_int c1"
      using u [OF p1] assms by (intro divide_nonneg_pos) simp_all
    moreover have "0 \<le> real_of_int x2 / real_of_int c2 * (1 - real_of_int x2 / real_of_int c2) / real_of_int c2"
      using u [OF p2] assms by (intro divide_nonneg_pos) simp_all
    ultimately have "0 \<le> real_of_int x1 / real_of_int c1 * (1 - real_of_int x1 / real_of_int c1) / real_of_int c1
        + real_of_int x2 / real_of_int c2 * (1 - real_of_int x2 / real_of_int c2) / real_of_int c2"
      by (rule add_nonneg_nonneg)
    with False show ?thesis
      unfolding spec_variance_def Let_def by (simp only: if_False)
  qed
qed

lemma wald_statistic_at_eq:
  assumes "0 < c1" "0 < c2" "0 \<le> x1" "x1 \<le> c1" "0 \<le> x2" "x2 \<le> c2"
  shows "wald_statistic_at c1 c2 pooled x1 x2 =
           (if real_of_int x1 / real_of_int c1 = real_of_int x2 / real_of_int c2 then Fin 0
            else fdiv (Fin (real_of_int x1 / real_of_int c1 - real_of_int x2 / real_of_int c2))
                      (Fin (sqrt (spec_variance c1 c2 pooled x1 x2))))"
proof -
  have v: "variance_at c1 c2 pooled x1 x2 = Fin (spec_variance c1 c2 pooled x1 x2)"
    using assms by (intro variance_at_Fin) simp_all
  have "\<not> spec_variance c1 c2 pooled x1 x2 < 0"
    using spec_variance_nonneg [OF assms, of pooled] by simp
  with v assms show ?thesis
    by (simp add: wald_statistic_at_def of_int64_def Let_def)
qed

lemma fdiv_nonzero_not_nan: "a \<noteq> 0 \<Longrightarrow> \<not> is_nan (fdiv (Fin a) (Fin b))"
  by (simp add: inf_of_sign_def)

lemma wald_statistic_at_not_nan:
  assumes "0 < c1" "0 < c2" "0 \<le> x1" "x1 \<le> c1" "0 \<le> x2" "x2 \<le> c2"
  shows "\<not> is_nan (wald_statistic_at c1 c2 pooled x1 x2)"
  unfolding wald_statistic_at_eq [OF assms]
  by (simp add: fdiv_nonzero_not_nan del: fdiv.simps)

text \<open>
  C1. For positive column totals \<open>c1\<close>, \<open>c2\<close> and every point \<open>(x1, x2)\<close> of the sample
  space, with \<open>p1 = x1 / c1\<close>, \<open>p2 = x2 / c2\<close> and the variance of the specification
  (pooled or unpooled): the variance is not negative; the entry of \<open>wald_statistic\<close> is \<open>0\<close>
  where \<open>p1 = p2\<close> (whatever the variance is, \<open>0\<close> included) and the floating-point
  quotient of \<open>p1 - p2\<close> by the square root of the variance elsewhere, which is the real
  number \<open>(p1 - p2) / sqrt variance\<close> when the variance is positive; the entry is never NaN.
\<close>

theorem wald_statistic_field:
  assumes "0 < c1" "0 < c2" "0 \<le> x1" "x1 \<le> c1" "0 \<le> x2" "x2 \<le> c2"
  shows "let p1 = real_of_int x1 / real_of_int c1;
             p2 = real_of_int x2 / real_of_int c2;
             variance = spec_variance c1 c2 pooled x1 x2;
             T = wald_statistic c1 c2 pooled ! nat x1 ! nat x2
         in 0 \<le> variance \<and>
            T = (if p1 = p2 then Fin 0 else fdiv (Fin (p1 - p2)) (Fin (sqrt variance))) \<and>
            (p1 \<noteq> p2 \<and> 0 < variance \<longrightarrow> T = Fin ((p1 - p2) / sqrt variance)) \<and>
            (p1 = p2 \<longrightarrow> T = Fin 0) \<and>
            \<not> is_nan T"
  using wald_statistic_at_eq [OF assms, of pooled] wald_statistic_at_not_nan [OF assms, of pooled]
    spec_variance_nonneg [OF assms, of pooled] assms
  by (simp add: Let_def wald_statistic_nth)

theorem wald_statistic_field_witness:
  "wald_statistic 1 2 True ! nat 0 ! nat 0 = Fin 0 \<and> spec_variance 1 2 True 0 0 = 0 \<and>
   wald_statistic 1 2 True ! nat 1 ! nat 0 = Fin (1 / sqrt (1 / 3)) \<and> spec_variance 1 2 True 1 0 = 1 / 3 \<and>
   wald_statistic 1 1 False ! nat 1 ! nat 0 = PInf \<and> spec_variance 1 1 False 1 0 = 0"
  using wald_statistic_field [of 1 2 0 0 True] wald_statistic_field [of 1 2 1 0 True]
    wald_statistic_field [of 1 1 1 0 False]
  by (simp add: spec_variance_def Let_def inf_of_sign_def)

section \<open>The rejection mask\<close>

lemma length_wald_statistic:
  "length (wald_statistic c1 c2 pooled) = nat (c1 + 1)"
  by (simp add: wald_statistic_def)

lemma length_wald_statistic_row:
  "0 \<le> x1 \<Longrightarrow> x1 \<le> c1 \<Longrightarrow> length (wald_statistic c1 c2 pooled ! nat x1) = nat (c2 + 1)"
  by (simp add: wald_statistic_def nth_map_upto0)

lemma nth_map_map:
  "i < length xss \<Longrightarrow> j < length (xss ! i) \<Longrightarrow> map (map f) xss ! i ! j = f (xss ! i ! j)"
  by simp

lemma index_arr_nth:
  assumes "index_arr alternative (wald_statistic c1 c2 pooled) t0 = Some idx"
    and "0 \<le> x1" "x1 \<le> c1" "0 \<le> x2" "x2 \<le> c2"
  shows "idx ! nat x1 ! nat x2 =
           (let t = wald_statistic_at c1 c2 pooled x1 x2
            in if alternative = ''two-sided'' then fge (fabs t) (fabs t0)
               else if alternative = ''less'' then fle t t0
               else fge t t0)"
proof -
  have i: "nat x1 < length (wald_statistic c1 c2 pooled)"
    using assms by (simp add: length_wald_statistic)
  have j: "nat x2 < length (wald_statistic c1 c2 pooled ! nat x1)"
    using assms by (simp add: length_wald_statistic_row)
  have w: "wald_statistic c1 c2 pooled ! nat x1 ! nat x2 = wald_statistic_at c1 c2 pooled x1 x2"
    using assms by (simp add: wald_statistic_nth)
  from assms(1) show ?thesis
    by (auto simp: index_arr_def nth_map_map [OF i j] w Let_def split: if_splits)
qed

lemma index_arr_recognised:
  "alternative \<in> {''two-sided'', ''less'', ''greater''} \<Longrightarrow> \<exists>idx. index_arr alternative w t0 = Some idx"
  by (auto simp: index_arr_def)

lemma barnard_exact_valid:
  assumes "0 < n_iter" "0 \<le> a" "0 \<le> b" "0 \<le> c" "0 \<le> d" "0 < a + c" "0 < b + d"
    and "index_arr alternative (wald_statistic (a + c) (b + d) pooled)
           (wald_statistic_at (a + c) (b + d) pooled a b) = Some idx"
  shows "barnard_exact [[a, b], [c, d]] alternative pooled n_iter =
           ([StatisticField, RejectionMask, NuisanceMaximizer],
            case binomial_maximisation_of_p_value_with_nuisance_param (a + c) (b + d) idx n_iter of
              Inl e \<Rightarrow> Inl e
            | Inr p_value \<Rightarrow>
                Inr \<lparr>statistic = wald_statistic_at (a + c) (b + d) pooled a b, pvalue = p_value\<rparr>)"
proof -
  have "wald_statistic (a + c) (b + d) pooled ! nat a ! nat b =
          wald_statistic_at (a + c) (b + d) pooled a b"
    using assms by (simp add: wald_statistic_nth)
  with assms show ?thesis
    by (simp add: barnard_exact_def table_2x2_checks Let_def split: sum.splits)
qed

lemma grid_search_Suc_last_round:
  "last_round (grid_search (Suc k) c1 c2 idx) =
     (let s = grid_search k c1 c2 idx;
          nuisance_arr = np_linspace (inf_bound s) (sup_bound s) nuisance_num
      in Some (nuisance_arr, p_values_arr c1 c2 idx nuisance_arr,
               np_argmax (p_values_arr c1 c2 idx nuisance_arr)))"
  by (simp add: grid_round_def Let_def)

text \<open>
  C4. For a valid table with positive column sums and a recognised \<open>alternative\<close>, with
  \<open>T0\<close> the entry of the statistic field at the observed point \<open>(a, b)\<close>: the mask
  \<open>index_arr\<close> holds at \<open>(x1, x2)\<close> exactly when \<open>|T| \<ge> |T0|\<close> (two-sided), \<open>T \<le> T0\<close>
  (less), \<open>T \<ge> T0\<close> (greater), in floating-point comparison, \<open>T0\<close> not being NaN. The
  mask is computed after the statistic field and before the maximisation, which receives
  it as its argument \<open>idx\<close>; every round of the grid search computes its p-values from
  this same \<open>idx\<close> and from the candidates of the round.
\<close>

theorem rejection_mask:
  assumes "0 < n_iter" "0 \<le> a" "0 \<le> b" "0 \<le> c" "0 \<le> d" "0 < a + c" "0 < b + d"
    and "alternative \<in> {''two-sided'', ''less'', ''greater''}"
  shows "\<exists>idx T0.
     T0 = wald_statistic (a + c) (b + d) pooled ! nat a ! nat b \<and>
     \<not> is_nan T0 \<and>
     index_arr alternative (wald_statistic (a + c) (b + d) pooled) T0 = Some idx \<and>
     (\<forall>x1 x2. 0 \<le> x1 \<and> x1 \<le> a + c \<and> 0 \<le> x2 \<and> x2 \<le> b + d \<longrightarrow>
        idx ! nat x1 ! nat x2 =
          (let T = wald_statistic (a + c) (b + d) pooled ! nat x1 ! nat x2
           in if alternative = ''two-sided'' then fge (fabs T) (fabs T0)
              else if alternative = ''less'' then fle T T0
              else fge T T0)) \<and>
     barnard_exact [[a, b], [c, d]] alternative pooled n_iter =
       ([StatisticField, RejectionMask, NuisanceMaximizer],
        case binomial_maximisation_of_p_value_with_nuisance_param (a + c) (b + d) idx n_iter of
          Inl e \<Rightarrow> Inl e
        | Inr p_value \<Rightarrow> Inr \<lparr>statistic = T0, pvalue = p_value\<rparr>) \<and>
     (\<forall>k. last_round (grid_search (Suc k) (a + c) (b + d) idx) =
        (let s = grid_search k (a + c) (b + d) idx;
             nuisance_arr = np_linspace (inf_bound s) (sup_bound s) nuisance_num
         in Some (nuisance_arr, p_values_arr (a + c) (b + d) idx nuisance_arr,
                  np_argmax (p_values_arr (a + c) (b + d) idx nuisance_arr))))"
proof -
  let ?c1 = "a + c" and ?c2 = "b + d"
  let ?T0 = "wald_statistic_at ?c1 ?c2 pooled a b"
  have t0: "wald_statistic ?c1 ?c2 pooled ! nat a ! nat b = ?T0"
    using assms by (simp add: wald_statistic_nth)
  have nn: "\<not> is_nan ?T0"
    using assms by (intro wald_statistic_at_not_nan) simp_all
  from index_arr_recognised [OF assms(8)] obtain idx
    where idx: "index_arr alternative (wald_statistic ?c1 ?c2 pooled) ?T0 = Some idx"
    by blast
  have pts: "idx ! nat x1 ! nat x2 =
          (let T = wald_statistic ?c1 ?c2 pooled ! nat x1 ! nat x2
           in if alternative = ''two-sided'' then fge (fabs T) (fabs ?T0)
              else if alternative = ''less'' then fle T ?T0
              else fge T ?T0)"
    if "0 \<le> x1 \<and> x1 \<le> ?c1 \<and> 0 \<le> x2 \<and> x2 \<le> ?c2" for x1 x2
    using that index_arr_nth [OF idx, of x1 x2] by (simp add: wald_statistic_nth)
  have run: "barnard_exact [[a, b], [c, d]] alternative pooled n_iter =
       ([StatisticField, RejectionMask, NuisanceMaximizer],
        case binomial_maximisation_of_p_value_with_nuisance_param ?c1 ?c2 idx n_iter of
          Inl e \<Rightarrow> Inl e
        | Inr p_value \<Rightarrow> Inr \<lparr>statistic = ?T0, pvalue = p_value\<rparr>)"
    using barnard_exact_valid [OF assms(1-7) idx] .
  show ?thesis
    apply (rule exI [of _ idx], rule exI [of _ ?T0])
    using t0 nn idx pts run grid_search_Suc_last_round by simp
qed

theorem rejection_mask_witness:
  "(0::int) < 3 \<and> (0::int) \<le> 1 \<and> (0::int) \<le> 0 \<and> (0::int) < 1 + 0 \<and> (0::int) < 0 + 1 \<and>
   ''greater'' \<in> {''two-sided'', ''less'', ''greater''} \<and>
   (\<exists>idx. index_arr ''greater'' (wald_statistic (1 + 0) (0 + 1) True)
             (wald_statistic (1 + 0) (0 + 1) True ! nat 1 ! nat 0) = Some idx \<and>
          idx ! nat 1 ! nat 0 = fge (wald_statistic (1 + 0) (0 + 1) True ! nat 1 ! nat 0)
                                    (wald_statistic (1 + 0) (0 + 1) True ! nat 1 ! nat 0) \<and>
          fst (barnard_exact [[1, 0], [0, 1]] ''greater'' True 3) =
            [StatisticField, RejectionMask, NuisanceMaximizer])"
proof -
  from rejection_mask [of 3 1 0 0 1 "''greater''" True]
  obtain idx where
    i: "index_arr ''greater'' (wald_statistic (1 + 0) (0 + 1) True)
          (wald_statistic (1 + 0) (0 + 1) True ! nat 1 ! nat 0) = Some idx"
    and p: "\<forall>x1 x2. 0 \<le> x1 \<and> x1 \<le> 1 + 0 \<and> 0 \<le> x2 \<and> x2 \<le> 0 + 1 \<longrightarrow>
        idx ! nat x1 ! nat x2 =
          (let T = wald_statistic (1 + 0) (0 + 1) True ! nat x1 ! nat x2
           in if ''greater'' = ''two-sided''
              then fge (fabs T) (fabs (wald_statistic (1 + 0) (0 + 1) True ! nat 1 ! nat 0))
              else if ''greater'' = ''less''
              then fle T (wald_statistic (1 + 0) (0 + 1) True ! nat 1 ! nat 0)
              else fge T (wald_statistic (1 + 0) (0 + 1) True ! nat 1 ! nat 0))"
    and r: "fst (barnard_exact [[1, 0], [0, 1]] ''greater'' True 3) =
            [StatisticField, RejectionMask, NuisanceMaximizer]"
    by force
  from p [rule_format, of 1 0]
  have "idx ! nat 1 ! nat 0 = fge (wald_statistic (1 + 0) (0 + 1) True ! nat 1 ! nat 0)
                                    (wald_statistic (1 + 0) (0 + 1) True ! nat 1 ! nat 0)"
    by (simp add: Let_def)
  with i r show ?thesis by auto
qed

section \<open>The nuisance bracket\<close>

text \<open>The index returned by \<open>argmax\<close> is an index of the array.\<close>

lemma argmax_scan_bound:
  "argmax_scan mp max_ind i vs = max_ind \<or>
   (i \<le> argmax_scan mp max_ind i vs \<and> argmax_scan mp max_ind i vs < i + length vs)"
proof (induction vs arbitrary: mp max_ind i)
  case Nil
  then show ?case by simp
next
  case (Cons v vs)
  show ?case
    using Cons.IH [of v i "Suc i"] Cons.IH [of mp max_ind "Suc i"]
    by auto
qed

lemma np_argmax_less: "xs \<noteq> [] \<Longrightarrow> np_argmax xs < length xs"
proof (cases xs)
  case Nil
  then show "xs \<noteq> [] \<Longrightarrow> ?thesis" by simp
next
  case (Cons v vs)
  then show ?thesis
    using argmax_scan_bound [of v 0 1 vs] by (auto simp: np_argmax_def)
qed

lemma length_np_linspace [simp]: "length (np_linspace start stop num) = num"
  by (simp add: np_linspace_def Let_def)

lemma length_p_values_arr [simp]: "length (p_values_arr c1 c2 idx nuisance_arr) = length nuisance_arr"
  by (simp add: p_values_arr_def)

lemma np_linspace_nth:
  assumes "j < num" "1 < num"
  shows "np_linspace (Fin lo) (Fin hi) num ! j = Fin (lo + real j * (hi - lo) / real (num - 1))"
proof (cases "j = num - 1")
  case True
  have "real (num - 1) \<noteq> 0" using assms by simp
  then have "hi = lo + real (num - 1) * (hi - lo) / real (num - 1)"
    by simp
  with True assms show ?thesis
    by (simp add: np_linspace_def Let_def)
next
  case False
  with assms show ?thesis
    by (simp add: np_linspace_def Let_def of_int64_def algebra_simps)
qed

lemma np_linspace_eq:
  "1 < num \<Longrightarrow>
   np_linspace (Fin lo) (Fin hi) num =
     map (\<lambda>j. Fin (lo + real j * (hi - lo) / real (num - 1))) [0..<num]"
  by (rule nth_equalityI) (simp_all add: np_linspace_nth)

lemma np_linspace_last:
  "1 < num \<Longrightarrow> last (np_linspace (Fin lo) (Fin hi) num) = Fin hi"
  by (simp add: np_linspace_def Let_def last_list_update)

lemma grid_point_bounds:
  fixes lo hi :: real
  assumes "lo \<le> hi" "j \<le> k" "k \<le> 99"
  shows "lo \<le> lo + real j * (hi - lo) / 99"
    and "lo + real j * (hi - lo) / 99 \<le> lo + real k * (hi - lo) / 99"
    and "lo + real k * (hi - lo) / 99 \<le> hi"
proof -
  have d: "0 \<le> hi - lo" using assms by simp
  show "lo \<le> lo + real j * (hi - lo) / 99" using d by simp
  have "real j * (hi - lo) \<le> real k * (hi - lo)"
    using assms d by (intro mult_right_mono) simp_all
  then show "lo + real j * (hi - lo) / 99 \<le> lo + real k * (hi - lo) / 99"
    by (simp add: divide_right_mono)
  have "real k * (hi - lo) \<le> 99 * (hi - lo)"
    using assms d by (intro mult_right_mono) simp_all
  then show "lo + real k * (hi - lo) / 99 \<le> hi" by simp
qed

text \<open>One round on a bracket of finite bounds.\<close>

lemma grid_round_bracket:
  assumes "inf_bound s = Fin lo" "sup_bound s = Fin hi" "lo \<le> hi"
  shows "\<exists>lo' hi'. inf_bound (grid_round c1 c2 idx s) = Fin lo' \<and>
                   sup_bound (grid_round c1 c2 idx s) = Fin hi' \<and>
                   lo \<le> lo' \<and> lo' \<le> hi' \<and> hi' \<le> hi"
proof -
  let ?nuis = "np_linspace (Fin lo) (Fin hi) nuisance_num"
  let ?i = "np_argmax (p_values_arr c1 c2 idx ?nuis)"
  let ?g = "\<lambda>j. lo + real j * (hi - lo) / 99"
  have i: "?i < nuisance_num"
    using np_argmax_less [of "p_values_arr c1 c2 idx ?nuis"]
    by (simp add: nuisance_num_def flip: length_0_conv)
  then have i99: "?i \<le> 99" by (simp add: nuisance_num_def)
  have nth: "?nuis ! j = Fin (?g j)" if "j < nuisance_num" for j
    using np_linspace_nth [OF that, of lo hi] by (simp add: nuisance_num_def)
  have nth0: "?nuis ! 0 = Fin lo"
    using nth [of 0] by (simp add: nuisance_num_def)
  have lst: "last ?nuis = Fin hi"
    by (simp add: np_linspace_last nuisance_num_def)
  have "inf_bound (grid_round c1 c2 idx s) = (if ?i > 0 then ?nuis ! (?i - 1) else ?nuis ! 0)"
    using assms by (simp add: grid_round_def Let_def)
  also have "\<dots> = Fin (?g (?i - 1))"
    using i nth [of "?i - 1"] nth0 by (cases "?i") simp_all
  finally have inf': "inf_bound (grid_round c1 c2 idx s) = Fin (?g (?i - 1))" .
  have "sup_bound (grid_round c1 c2 idx s) =
          (if ?i < nuisance_num - 1 then ?nuis ! (?i + 1) else last ?nuis)"
    using assms by (simp add: grid_round_def Let_def)
  also have "\<dots> = Fin (if ?i < 99 then ?g (?i + 1) else hi)"
    using nth [of "?i + 1"] lst by (simp add: nuisance_num_def)
  finally have sup': "sup_bound (grid_round c1 c2 idx s) = Fin (if ?i < 99 then ?g (?i + 1) else hi)" .
  have 1: "lo \<le> ?g (?i - 1)"
    using grid_point_bounds(1) [OF assms(3), of "?i - 1" "?i"] i99 by simp
  have 2: "?g (?i - 1) \<le> (if ?i < 99 then ?g (?i + 1) else hi)"
    using grid_point_bounds(2) [OF assms(3), of "?i - 1" "?i + 1"]
      grid_point_bounds(3) [OF assms(3), of "?i - 1" "?i - 1"] i99
    by auto
  have 3: "(if ?i < 99 then ?g (?i + 1) else hi) \<le> hi"
    using grid_point_bounds(3) [OF assms(3), of "?i + 1" "?i + 1"] by auto
  from inf' sup' 1 2 3 show ?thesis by blast
qed

lemma grid_search_bracket:
  "\<exists>lo hi. inf_bound (grid_search k c1 c2 idx) = Fin lo \<and>
            sup_bound (grid_search k c1 c2 idx) = Fin hi \<and> 0 \<le> lo \<and> lo \<le> hi \<and> hi \<le> 1"
proof (induction k)
  case 0
  then show ?case by (simp add: initial_state_def)
next
  case (Suc k)
  then obtain lo hi where b: "inf_bound (grid_search k c1 c2 idx) = Fin lo"
      "sup_bound (grid_search k c1 c2 idx) = Fin hi" "0 \<le> lo" "lo \<le> hi" "hi \<le> 1"
    by blast
  from grid_round_bracket [OF b(1,2,4), of c1 c2 idx] b(3,5) show ?case
    by fastforce
qed

lemma grid_round_neighbours:
  assumes "inf_bound s = Fin lo" "sup_bound s = Fin hi"
  shows "last_round (grid_round c1 c2 idx s) =
           Some (np_linspace (Fin lo) (Fin hi) nuisance_num,
                 p_values_arr c1 c2 idx (np_linspace (Fin lo) (Fin hi) nuisance_num),
                 np_argmax (p_values_arr c1 c2 idx (np_linspace (Fin lo) (Fin hi) nuisance_num)))"
    and "np_argmax (p_values_arr c1 c2 idx (np_linspace (Fin lo) (Fin hi) nuisance_num)) < nuisance_num"
    and "inf_bound (grid_round c1 c2 idx s) =
           (let nuisance_arr = np_linspace (Fin lo) (Fin hi) nuisance_num;
                i = np_argmax (p_values_arr c1 c2 idx nuisance_arr)
            in if 0 < i then nuisance_arr ! (i - 1) else Fin lo)"
    and "sup_bound (grid_round c1 c2 idx s) =
           (let nuisance_arr = np_linspace (Fin lo) (Fin hi) nuisance_num;
                i = np_argmax (p_values_arr c1 c2 idx nuisance_arr)
            in if i < nuisance_num - 1 then nuisance_arr ! (i + 1) else Fin hi)"
proof -
  let ?nuis = "np_linspace (Fin lo) (Fin hi) nuisance_num"
  show "last_round (grid_round c1 c2 idx s) =
          Some (?nuis, p_values_arr c1 c2 idx ?nuis, np_argmax (p_values_arr c1 c2 idx ?nuis))"
    using assms by (simp add: grid_round_def Let_def)
  show "np_argmax (p_values_arr c1 c2 idx ?nuis) < nuisance_num"
    using np_argmax_less [of "p_values_arr c1 c2 idx ?nuis"]
    by (simp add: nuisance_num_def flip: length_0_conv)
  have "?nuis ! 0 = Fin lo"
    using np_linspace_nth [of 0 nuisance_num lo hi] by (simp add: nuisance_num_def)
  then show "inf_bound (grid_round c1 c2 idx s) =
           (let nuisance_arr = ?nuis; i = np_argmax (p_values_arr c1 c2 idx nuisance_arr)
            in if 0 < i then nuisance_arr ! (i - 1) else Fin lo)"
    using assms by (simp add: grid_round_def Let_def)
  have "last ?nuis = Fin hi"
    by (simp add: np_linspace_last nuisance_num_def)
  then show "sup_bound (grid_round c1 c2 idx s) =
           (let nuisance_arr = ?nuis; i = np_argmax (p_values_arr c1 c2 idx nuisance_arr)
            in if i < nuisance_num - 1 then nuisance_arr ! (i + 1) else Fin hi)"
    using assms by (simp add: grid_round_def Let_def)
qed

section \<open>The probability field\<close>

lemma gammaln_Fin: "0 \<le> k \<Longrightarrow> gammaln (k + 1) = Fin (ln (fact (nat k)))"
  by (simp add: gammaln_def)

lemma compute_log_combinations_nth:
  assumes "0 \<le> k" "k \<le> n"
  shows "compute_log_combinations n ! nat k =
           Fin (ln (fact (nat n)) - ln (fact (nat k)) - ln (fact (nat (n - k))))"
proof -
  let ?g = "map (\<lambda>k. gammaln (k + 1)) [0..n]"
  have len: "length ?g = nat (n + 1)" by simp
  have k: "nat k < length ?g" using assms by simp
  have a: "?g ! nat k = Fin (ln (fact (nat k)))"
    using assms by (simp add: nth_map_upto0 gammaln_Fin)
  have "rev ?g ! nat k = ?g ! (length ?g - Suc (nat k))"
    using k by (rule rev_nth)
  also have "length ?g - Suc (nat k) = nat (n - k)"
    using assms by simp
  also have "?g ! nat (n - k) = Fin (ln (fact (nat (n - k))))"
    using assms by (simp add: nth_map_upto0 gammaln_Fin)
  finally have b: "rev ?g ! nat k = Fin (ln (fact (nat (n - k))))" .
  have n: "gammaln (n + 1) = Fin (ln (fact (nat n)))"
    using assms by (simp add: gammaln_Fin)
  have "compute_log_combinations n ! nat k =
          fsub (fsub (gammaln (n + 1)) (?g ! nat k)) (rev ?g ! nat k)"
    using k unfolding compute_log_combinations_def Let_def by simp
  with a b n show ?thesis by simp
qed

lemma x1_sum_x2_log_comb_nth:
  assumes "0 \<le> x1" "x1 \<le> c1" "0 \<le> x2" "x2 \<le> c2"
  shows "x1_sum_x2_log_comb c1 c2 ! nat x1 ! nat x2 =
           fadd (compute_log_combinations c1 ! nat x1) (compute_log_combinations c2 ! nat x2)"
  using assms by (simp add: x1_sum_x2_log_comb_def Let_def nth_map_upto0)

lemma x1_sum_x2_log_comb_Fin:
  assumes "0 \<le> x1" "x1 \<le> c1" "0 \<le> x2" "x2 \<le> c2"
  shows "\<exists>r. x1_sum_x2_log_comb c1 c2 ! nat x1 ! nat x2 = Fin r"
  using assms by (simp add: x1_sum_x2_log_comb_nth compute_log_combinations_nth)

text \<open>The two boundary substitutions.\<close>

lemma nuisance_power_x1_x2_boundary:
  "x1 + x2 = 0 \<Longrightarrow> nuisance_power_x1_x2 nuisance x1 x2 = Fin 0"
  by (simp add: nuisance_power_x1_x2_def)

lemma nuisance_power_n_minus_x1_x2_boundary:
  "x1 + x2 = n \<Longrightarrow> nuisance_power_n_minus_x1_x2 n nuisance x1 x2 = Fin 0"
  by (simp add: nuisance_power_n_minus_x1_x2_def)

text \<open>
  For a finite candidate the two exponent terms are finite or \<open>-inf\<close>, never NaN and never
  \<open>+inf\<close>; they are finite for a candidate other than \<open>0\<close> and \<open>1\<close>.
\<close>

lemma nuisance_power_x1_x2_cases:
  assumes "0 \<le> x1 + x2"
  shows "(\<exists>r. nuisance_power_x1_x2 (Fin q) x1 x2 = Fin r) \<or>
         (q = 0 \<and> 0 < x1 + x2 \<and> nuisance_power_x1_x2 (Fin q) x1 x2 = MInf)"
  using assms
  by (auto simp: nuisance_power_x1_x2_def log_nuisance_arr_def fge_def of_int64_def
      inf_of_sign_def Let_def)

lemma nuisance_power_n_minus_x1_x2_cases:
  assumes "x1 + x2 \<le> n"
  shows "(\<exists>r. nuisance_power_n_minus_x1_x2 n (Fin q) x1 x2 = Fin r) \<or>
         (q = 1 \<and> x1 + x2 < n \<and> nuisance_power_n_minus_x1_x2 n (Fin q) x1 x2 = MInf)"
  using assms
  by (auto simp: nuisance_power_n_minus_x1_x2_def log_1_minus_nuisance_arr_def fge_def
      of_int64_def inf_of_sign_def Let_def)

lemma tmp_values_at_Fin:
  assumes "0 \<le> x1" "x1 \<le> c1" "0 \<le> x2" "x2 \<le> c2"
  shows "\<exists>v. tmp_values_at c1 c2 (Fin q) x1 x2 = Fin v \<and> 0 \<le> v \<and>
             ((q \<noteq> 0 \<or> x1 + x2 = 0) \<and> (q \<noteq> 1 \<or> x1 + x2 = c1 + c2) \<longrightarrow> 0 < v)"
proof -
  obtain r where r: "x1_sum_x2_log_comb c1 c2 ! nat x1 ! nat x2 = Fin r"
    using x1_sum_x2_log_comb_Fin [OF assms] by blast
  have s: "0 \<le> x1 + x2" "x1 + x2 \<le> c1 + c2" using assms by simp_all
  from nuisance_power_x1_x2_cases [OF s(1), of q]
    nuisance_power_n_minus_x1_x2_cases [OF s(2), of q]
  show ?thesis
    by (auto simp: tmp_values_at_def Let_def r)
qed

lemma foldl_fadd_Fin_nonneg:
  assumes "\<forall>x \<in> set xs. \<exists>v. x = Fin v \<and> 0 \<le> v"
  shows "\<exists>t. foldl fadd (Fin s) xs = Fin t \<and> s \<le> t \<and> (\<forall>v. Fin v \<in> set xs \<longrightarrow> s + v \<le> t)"
  using assms
proof (induction xs arbitrary: s)
  case Nil
  then show ?case by simp
next
  case (Cons x xs)
  from Cons.prems obtain v where v: "x = Fin v" "0 \<le> v" by auto
  from Cons.prems have "\<forall>x \<in> set xs. \<exists>v. x = Fin v \<and> 0 \<le> v" by simp
  from Cons.IH [OF this, of "s + v"] obtain t where
    t: "foldl fadd (Fin (s + v)) xs = Fin t" "s + v \<le> t" "\<forall>w. Fin w \<in> set xs \<longrightarrow> s + v + w \<le> t"
    by blast
  have "\<forall>w. Fin w \<in> set (x # xs) \<longrightarrow> s + w \<le> t"
    using t v by fastforce
  moreover have "s \<le> t" using t(2) v(2) by simp
  ultimately show ?case using t(1) v(1) by simp
qed

lemma fsum_Fin_nonneg:
  assumes "\<forall>x \<in> set xs. \<exists>v. x = Fin v \<and> 0 \<le> v"
  shows "\<exists>t. fsum xs = Fin t \<and> 0 \<le> t \<and> (\<forall>v. Fin v \<in> set xs \<longrightarrow> v \<le> t)"
  using foldl_fadd_Fin_nonneg [OF assms, of 0] by (simp add: fsum_def)

lemma in_set_concat_map_upto:
  "y \<in> set (concat (map (\<lambda>x1. map (f x1) [0..c2]) [0..c1])) \<longleftrightarrow>
   (\<exists>x1 x2. 0 \<le> x1 \<and> x1 \<le> c1 \<and> 0 \<le> x2 \<and> x2 \<le> c2 \<and> y = f x1 x2)"
proof
  assume "y \<in> set (concat (map (\<lambda>x1. map (f x1) [0..c2]) [0..c1]))"
  then obtain x1 where "x1 \<in> set [0..c1]" "y \<in> set (map (f x1) [0..c2])"
    by auto
  then obtain x2 where "x2 \<in> set [0..c2]" "y = f x1 x2"
    by auto
  with \<open>x1 \<in> set [0..c1]\<close>
  show "\<exists>x1 x2. 0 \<le> x1 \<and> x1 \<le> c1 \<and> 0 \<le> x2 \<and> x2 \<le> c2 \<and> y = f x1 x2"
    by (intro exI [of _ x1] exI [of _ x2]) simp
next
  assume "\<exists>x1 x2. 0 \<le> x1 \<and> x1 \<le> c1 \<and> 0 \<le> x2 \<and> x2 \<le> c2 \<and> y = f x1 x2"
  then obtain x1 x2 where "x1 \<in> set [0..c1]" "x2 \<in> set [0..c2]" "y = f x1 x2"
    by auto
  have "map (f x1) [0..c2] \<in> (\<lambda>x1. map (f x1) [0..c2]) ` set [0..c1]"
    using \<open>x1 \<in> set [0..c1]\<close> by (rule imageI)
  moreover have "y \<in> f x1 ` set [0..c2]"
    unfolding \<open>y = f x1 x2\<close> using \<open>x2 \<in> set [0..c2]\<close> by (rule imageI)
  ultimately have "y \<in> set (map (f x1) [0..c2])"
    and "map (f x1) [0..c2] \<in> set (map (\<lambda>x1. map (f x1) [0..c2]) [0..c1])"
    unfolding set_map by blast+
  then show "y \<in> set (concat (map (\<lambda>x1. map (f x1) [0..c2]) [0..c1]))"
    unfolding set_concat by (rule UN_I [rotated])
qed

text \<open>The total mass of a finite candidate is finite and positive.\<close>

lemma tmp_values_total:
  assumes "0 \<le> c1" "0 \<le> c2"
  shows "\<exists>t. fsum (concat (tmp_values_arr c1 c2 (Fin q))) = Fin t \<and> 0 < t"
proof -
  let ?xs = "concat (tmp_values_arr c1 c2 (Fin q))"
  have mem: "y \<in> set ?xs \<longleftrightarrow>
      (\<exists>x1 x2. 0 \<le> x1 \<and> x1 \<le> c1 \<and> 0 \<le> x2 \<and> x2 \<le> c2 \<and> y = tmp_values_at c1 c2 (Fin q) x1 x2)" for y
    unfolding tmp_values_arr_def by (rule in_set_concat_map_upto)
  have "\<forall>x \<in> set ?xs. \<exists>v. x = Fin v \<and> 0 \<le> v"
    using tmp_values_at_Fin mem by metis
  from fsum_Fin_nonneg [OF this]
  obtain t where t: "fsum ?xs = Fin t" "0 \<le> t" "\<forall>v. Fin v \<in> set ?xs \<longrightarrow> v \<le> t"
    by blast
  have "\<exists>v. Fin v \<in> set ?xs \<and> 0 < v"
  proof (cases "q = 1")
    case True
    from tmp_values_at_Fin [of c1 c1 c2 c2 q] assms True
    obtain v where "tmp_values_at c1 c2 (Fin q) c1 c2 = Fin v" "0 < v" by auto
    moreover have "tmp_values_at c1 c2 (Fin q) c1 c2 \<in> set ?xs"
      using assms mem by blast
    ultimately show ?thesis by metis
  next
    case False
    from tmp_values_at_Fin [of 0 c1 0 c2 q] assms False
    obtain v where "tmp_values_at c1 c2 (Fin q) 0 0 = Fin v" "0 < v" by auto
    moreover have "tmp_values_at c1 c2 (Fin q) 0 0 \<in> set ?xs"
      using assms mem by blast
    ultimately show ?thesis by metis
  qed
  then obtain v where "Fin v \<in> set ?xs" "0 < v" by blast
  with t have "0 < t" by fastforce
  with t show ?thesis by auto
qed

lemma tmp_values_arr_normalised_Fin:
  assumes "0 \<le> c1" "0 \<le> c2"
    and "y \<in> set (concat (tmp_values_arr_normalised c1 c2 (Fin q)))"
  shows "\<exists>v. y = Fin v \<and> 0 \<le> v"
proof -
  obtain t where t: "fsum (concat (tmp_values_arr c1 c2 (Fin q))) = Fin t" "0 < t"
    using tmp_values_total [OF assms(1,2)] by blast
  have "tmp_values_arr_normalised c1 c2 (Fin q) =
          map (map (\<lambda>v. fdiv v (Fin t))) (tmp_values_arr c1 c2 (Fin q))"
    using t by (simp add: tmp_values_arr_normalised_def Let_def)
  also have "\<dots> = map (\<lambda>x1. map (\<lambda>x2. fdiv (tmp_values_at c1 c2 (Fin q) x1 x2) (Fin t)) [0..c2]) [0..c1]"
    by (simp add: tmp_values_arr_def comp_def)
  finally have "y \<in> set (concat (map (\<lambda>x1. map (\<lambda>x2. fdiv (tmp_values_at c1 c2 (Fin q) x1 x2) (Fin t))
                  [0..c2]) [0..c1]))"
    using assms(3) by simp
  then obtain x1 x2 where x: "0 \<le> x1" "x1 \<le> c1" "0 \<le> x2" "x2 \<le> c2"
      and y: "y = fdiv (tmp_values_at c1 c2 (Fin q) x1 x2) (Fin t)"
    unfolding in_set_concat_map_upto by blast
  from tmp_values_at_Fin [OF x, of q] obtain v where "tmp_values_at c1 c2 (Fin q) x1 x2 = Fin v" "0 \<le> v"
    by blast
  with y t show ?thesis by simp
qed

lemma set_select_mask: "set (select_mask idx a) \<subseteq> set (concat a)"
  by (auto simp: select_mask_def dest: set_zip_leftD)

lemma p_value_candidate_Fin:
  assumes "0 \<le> c1" "0 \<le> c2"
  shows "\<exists>p. fsum (select_mask idx (tmp_values_arr_normalised c1 c2 (Fin q))) = Fin p \<and> 0 \<le> p"
proof -
  have "\<forall>x \<in> set (select_mask idx (tmp_values_arr_normalised c1 c2 (Fin q))). \<exists>v. x = Fin v \<and> 0 \<le> v"
    using tmp_values_arr_normalised_Fin [OF assms] set_select_mask by blast
  from fsum_Fin_nonneg [OF this] show ?thesis
    by auto
qed

lemma p_values_arr_Fin:
  assumes "0 \<le> c1" "0 \<le> c2" "\<forall>x \<in> set nuisance_arr. is_fin x"
    and "y \<in> set (p_values_arr c1 c2 idx nuisance_arr)"
  shows "\<exists>p. y = Fin p \<and> 0 \<le> p"
proof -
  from assms(4) obtain x where x: "x \<in> set nuisance_arr"
    and y: "y = fsum (select_mask idx (tmp_values_arr_normalised c1 c2 x))"
    by (auto simp: p_values_arr_def)
  from assms(3) x obtain q where "x = Fin q" by (cases x) auto
  with y p_value_candidate_Fin [OF assms(1,2), of idx q] show ?thesis by simp
qed

section \<open>The p-value\<close>

text \<open>On an array of finite values \<open>argmax\<close> returns the index of a maximum.\<close>

lemma argmax_scan_max:
  "(argmax_scan (Fin m) mi i (map Fin ws) = mi \<and> (\<forall>w \<in> set ws. w \<le> m)) \<or>
   (i \<le> argmax_scan (Fin m) mi i (map Fin ws) \<and>
    argmax_scan (Fin m) mi i (map Fin ws) < i + length ws \<and>
    m \<le> ws ! (argmax_scan (Fin m) mi i (map Fin ws) - i) \<and>
    (\<forall>w \<in> set ws. w \<le> ws ! (argmax_scan (Fin m) mi i (map Fin ws) - i)))"
proof (induction ws arbitrary: m mi i)
  case Nil
  then show ?case by simp
next
  case (Cons w ws)
  show ?case
  proof (cases "w \<le> m")
    case True
    with Cons.IH [of m mi "Suc i"] show ?thesis
      by (auto simp: nth_Cons')
  next
    case False
    with Cons.IH [of w i "Suc i"] show ?thesis
      by (auto simp: nth_Cons' Suc_diff_le)
  qed
qed

lemma all_fin_map_Fin:
  "\<forall>y \<in> set ys. \<exists>p. y = Fin p \<and> 0 \<le> p \<Longrightarrow> \<exists>ws. ys = map Fin ws \<and> (\<forall>w \<in> set ws. 0 \<le> w)"
proof (induction ys)
  case Nil
  then show ?case by simp
next
  case (Cons y ys)
  then obtain ws p where "ys = map Fin ws" "\<forall>w \<in> set ws. 0 \<le> w" "y = Fin p" "0 \<le> p"
    by auto
  then have "y # ys = map Fin (p # ws) \<and> (\<forall>w \<in> set (p # ws). 0 \<le> w)" by simp
  then show ?case by (rule exI)
qed

lemma np_argmax_max:
  assumes "ws \<noteq> []" "j < length ws"
  shows "ws ! j \<le> ws ! np_argmax (map Fin ws)"
proof -
  from assms obtain w ws' where ws: "ws = w # ws'" by (cases ws) auto
  from argmax_scan_max [of w 0 1 ws'] assms(2) show ?thesis
    unfolding ws np_argmax_def
    by (cases j) (auto simp: nth_Cons')
qed

text \<open>The candidates and the p-values of round \<open>k + 1\<close>.\<close>

lemma grid_search_round:
  assumes "0 \<le> c1" "0 \<le> c2"
  shows "\<exists>nuisance_arr ps.
           last_round (grid_search (Suc k) c1 c2 idx) =
             Some (nuisance_arr, map Fin ps, np_argmax (map Fin ps)) \<and>
           map Fin ps = p_values_arr c1 c2 idx nuisance_arr \<and>
           length ps = nuisance_num \<and>
           (\<forall>p \<in> set ps. 0 \<le> p) \<and>
           (\<forall>x \<in> set nuisance_arr. \<exists>q. x = Fin q \<and> 0 \<le> q \<and> q \<le> 1)"
proof -
  let ?s = "grid_search k c1 c2 idx"
  obtain lo hi where b: "inf_bound ?s = Fin lo" "sup_bound ?s = Fin hi"
      "0 \<le> lo" "lo \<le> hi" "hi \<le> 1"
    using grid_search_bracket [of k c1 c2 idx] by blast
  let ?nuis = "np_linspace (Fin lo) (Fin hi) nuisance_num"
  let ?pv = "p_values_arr c1 c2 idx ?nuis"
  have e: "?nuis = map (\<lambda>j. Fin (lo + real j * (hi - lo) / 99)) [0..<100]"
    using np_linspace_eq [of nuisance_num lo hi] by (simp add: nuisance_num_def)
  have cand: "\<exists>q. x = Fin q \<and> 0 \<le> q \<and> q \<le> 1" if "x \<in> set ?nuis" for x
  proof -
    from that obtain j where j: "j < 100" "x = Fin (lo + real j * (hi - lo) / 99)"
      unfolding e by auto
    from j(1) have "lo \<le> lo + real j * (hi - lo) / 99" "lo + real j * (hi - lo) / 99 \<le> hi"
      using grid_point_bounds [OF b(4), of j j] by simp_all
    with b j(2) show ?thesis by simp
  qed
  then have fin: "\<forall>x \<in> set ?nuis. is_fin x" by fastforce
  have "\<forall>y \<in> set ?pv. \<exists>p. y = Fin p \<and> 0 \<le> p"
    using p_values_arr_Fin [OF assms fin] by blast
  from all_fin_map_Fin [OF this] obtain ps where ps: "?pv = map Fin ps" "\<forall>p \<in> set ps. 0 \<le> p"
    by blast
  have "length (map Fin ps) = nuisance_num"
    unfolding ps(1) [symmetric] by simp
  then have len: "length ps = nuisance_num" by simp
  have "last_round (grid_search (Suc k) c1 c2 idx) = Some (?nuis, ?pv, np_argmax ?pv)"
    using grid_round_neighbours(1) [OF b(1,2)] by simp
  with ps len cand show ?thesis
    by (intro exI [of _ ?nuis] exI [of _ ps]) simp
qed

section \<open>Substitutions and NaN\<close>

lemma wald_statistic_no_nan:
  assumes "0 < c1" "0 < c2" "t \<in> set (concat (wald_statistic c1 c2 pooled))"
  shows "\<not> is_nan t"
proof -
  from assms(3) obtain x1 x2 where "0 \<le> x1" "x1 \<le> c1" "0 \<le> x2" "x2 \<le> c2"
      "t = wald_statistic_at c1 c2 pooled x1 x2"
    unfolding wald_statistic_def in_set_concat_map_upto by blast
  with wald_statistic_at_not_nan [OF assms(1,2)] show ?thesis by simp
qed

lemma tmp_values_arr_Fin:
  assumes "0 \<le> c1" "0 \<le> c2" "y \<in> set (concat (tmp_values_arr c1 c2 (Fin q)))"
  shows "is_fin y"
proof -
  from assms(3) obtain x1 x2 where x: "0 \<le> x1" "x1 \<le> c1" "0 \<le> x2" "x2 \<le> c2"
      and y: "y = tmp_values_at c1 c2 (Fin q) x1 x2"
    unfolding tmp_values_arr_def in_set_concat_map_upto by blast
  from tmp_values_at_Fin [OF x, of q] y show ?thesis by auto
qed

text \<open>
  C8. At every point with \<open>x1 + x2 = 0\<close> the term \<open>nuisance_power_x1_x2\<close> is \<open>0\<close>, and at
  every point with \<open>x1 + x2 = n\<close> the term \<open>nuisance_power_n_minus_x1_x2\<close> is \<open>0\<close>, for every
  candidate; without the substitution the products at the candidates \<open>0\<close> and \<open>1\<close> are
  \<open>-inf * 0\<close>, which is NaN. In every round, for every candidate of the round: every
  entry of \<open>tmp_values_arr\<close> is finite, its sum over the sample space is finite, every
  entry after the division is finite; and every p-value of the round is finite. No entry
  of the statistic field is NaN.
\<close>

theorem no_nan_in_probabilities:
  assumes "0 < c1" "0 < c2"
  shows "(\<forall>nuisance x1 x2. x1 + x2 = 0 \<longrightarrow> nuisance_power_x1_x2 nuisance x1 x2 = Fin 0) \<and>
         (\<forall>nuisance x1 x2. x1 + x2 = c1 + c2 \<longrightarrow>
            nuisance_power_n_minus_x1_x2 (c1 + c2) nuisance x1 x2 = Fin 0) \<and>
         fmul (log_nuisance_arr (Fin 0)) (of_int64 0) = NaN \<and>
         fmul (log_1_minus_nuisance_arr (Fin 1)) (of_int64 0) = NaN \<and>
         (\<exists>nuisance_arr p_values i.
            last_round (grid_search (Suc k) c1 c2 idx) = Some (nuisance_arr, p_values, i) \<and>
            (\<forall>nuisance \<in> set nuisance_arr.
               (\<forall>v \<in> set (concat (tmp_values_arr c1 c2 nuisance)). is_fin v) \<and>
               is_fin (fsum (concat (tmp_values_arr c1 c2 nuisance))) \<and>
               (\<forall>v \<in> set (concat (tmp_values_arr_normalised c1 c2 nuisance)). is_fin v)) \<and>
            (\<forall>p \<in> set p_values. is_fin p)) \<and>
         (\<forall>t \<in> set (concat (wald_statistic c1 c2 pooled)). \<not> is_nan t)"
proof -
  have c: "0 \<le> c1" "0 \<le> c2" using assms by simp_all
  have 1: "\<forall>nuisance x1 x2. x1 + x2 = 0 \<longrightarrow> nuisance_power_x1_x2 nuisance x1 x2 = Fin 0"
    by (simp add: nuisance_power_x1_x2_boundary)
  have 2: "\<forall>nuisance x1 x2. x1 + x2 = c1 + c2 \<longrightarrow>
            nuisance_power_n_minus_x1_x2 (c1 + c2) nuisance x1 x2 = Fin 0"
    by (simp add: nuisance_power_n_minus_x1_x2_boundary)
  have 3: "fmul (log_nuisance_arr (Fin 0)) (of_int64 0) = NaN"
    by (simp add: log_nuisance_arr_def fge_def of_int64_def inf_of_sign_def)
  have 4: "fmul (log_1_minus_nuisance_arr (Fin 1)) (of_int64 0) = NaN"
    by (simp add: log_1_minus_nuisance_arr_def fge_def of_int64_def inf_of_sign_def)
  from grid_search_round [OF c, of k idx] obtain nuisance_arr ps where
    r: "last_round (grid_search (Suc k) c1 c2 idx) =
          Some (nuisance_arr, map Fin ps, np_argmax (map Fin ps))"
    and cand: "\<forall>x \<in> set nuisance_arr. \<exists>q. x = Fin q \<and> 0 \<le> q \<and> q \<le> 1"
    by blast
  have per: "(\<forall>v \<in> set (concat (tmp_values_arr c1 c2 nuisance)). is_fin v) \<and>
             is_fin (fsum (concat (tmp_values_arr c1 c2 nuisance))) \<and>
             (\<forall>v \<in> set (concat (tmp_values_arr_normalised c1 c2 nuisance)). is_fin v)"
    if "nuisance \<in> set nuisance_arr" for nuisance
  proof -
    from cand that obtain q where q: "nuisance = Fin q" by blast
    have a: "\<forall>v \<in> set (concat (tmp_values_arr c1 c2 nuisance)). is_fin v"
      unfolding q using tmp_values_arr_Fin [OF c] by blast
    have b: "is_fin (fsum (concat (tmp_values_arr c1 c2 nuisance)))"
      unfolding q using tmp_values_total [OF c, of q] by auto
    have "\<forall>v \<in> set (concat (tmp_values_arr_normalised c1 c2 nuisance)). is_fin v"
      unfolding q using tmp_values_arr_normalised_Fin [OF c] by fastforce
    with a b show ?thesis by blast
  qed
  have pv: "\<forall>p \<in> set (map Fin ps). is_fin p" by simp
  have 5: "\<exists>nuisance_arr p_values i.
            last_round (grid_search (Suc k) c1 c2 idx) = Some (nuisance_arr, p_values, i) \<and>
            (\<forall>nuisance \<in> set nuisance_arr.
               (\<forall>v \<in> set (concat (tmp_values_arr c1 c2 nuisance)). is_fin v) \<and>
               is_fin (fsum (concat (tmp_values_arr c1 c2 nuisance))) \<and>
               (\<forall>v \<in> set (concat (tmp_values_arr_normalised c1 c2 nuisance)). is_fin v)) \<and>
            (\<forall>p \<in> set p_values. is_fin p)"
    using r per pv by blast
  have 6: "\<forall>t \<in> set (concat (wald_statistic c1 c2 pooled)). \<not> is_nan t"
    using wald_statistic_no_nan [OF assms] by blast
  from 1 2 3 4 5 6 show ?thesis by blast
qed

theorem no_nan_in_probabilities_witness:
  "(0::int) < 1 \<and> (0::int) < 2 \<and>
   nuisance_power_x1_x2 (Fin 0) 0 0 = Fin 0 \<and>
   nuisance_power_n_minus_x1_x2 (1 + 2) (Fin 1) 1 2 = Fin 0 \<and>
   (\<exists>nuisance_arr p_values i.
      last_round (grid_search (Suc 0) 1 2 [[True, False, True], [False, True, False]]) =
        Some (nuisance_arr, p_values, i) \<and>
      list_all is_fin p_values) \<and>
   list_all (\<lambda>t. \<not> is_nan t) (concat (wald_statistic 1 2 True))"
  using no_nan_in_probabilities [of 1 2 0 "[[True, False, True], [False, True, False]]" True]
  unfolding list_all_iff by auto

section \<open>The rounds of the grid search\<close>

text \<open>On an array of finite values the index returned by \<open>argmax\<close> is that of the first maximum.\<close>

lemma argmax_scan_first:
  "(argmax_scan (Fin m) mi i (map Fin ws) = mi \<and> (\<forall>w \<in> set ws. w \<le> m)) \<or>
   (i \<le> argmax_scan (Fin m) mi i (map Fin ws) \<and>
    argmax_scan (Fin m) mi i (map Fin ws) < i + length ws \<and>
    m < ws ! (argmax_scan (Fin m) mi i (map Fin ws) - i) \<and>
    (\<forall>j < argmax_scan (Fin m) mi i (map Fin ws) - i.
       ws ! j < ws ! (argmax_scan (Fin m) mi i (map Fin ws) - i)))"
proof (induction ws arbitrary: m mi i)
  case Nil
  then show ?case by simp
next
  case (Cons w ws)
  show ?case
  proof (cases "w \<le> m")
    case True
    let ?r = "argmax_scan (Fin m) mi (Suc i) (map Fin ws)"
    from Cons.IH [of m mi "Suc i"] consider
      (keep) "?r = mi" "\<forall>w \<in> set ws. w \<le> m"
      | (move) "Suc i \<le> ?r" "?r < Suc i + length ws" "m < ws ! (?r - Suc i)"
          "\<forall>j < ?r - Suc i. ws ! j < ws ! (?r - Suc i)"
      by blast
    then show ?thesis
    proof cases
      case keep
      with True show ?thesis by simp
    next
      case move
      have e: "(w # ws) ! (?r - i) = ws ! (?r - Suc i)"
        using move(1) by (simp add: nth_Cons')
      have "(w # ws) ! j < ws ! (?r - Suc i)" if "j < ?r - i" for j
      proof (cases j)
        case 0
        with True move(3) show ?thesis by simp
      next
        case (Suc j')
        with that move(1) have "j' < ?r - Suc i" by simp
        with move(4) Suc show ?thesis by simp
      qed
      with True move e show ?thesis by simp
    qed
  next
    case False
    let ?r = "argmax_scan (Fin w) i (Suc i) (map Fin ws)"
    from Cons.IH [of w i "Suc i"] consider
      (keep) "?r = i" "\<forall>v \<in> set ws. v \<le> w"
      | (move) "Suc i \<le> ?r" "?r < Suc i + length ws" "w < ws ! (?r - Suc i)"
          "\<forall>j < ?r - Suc i. ws ! j < ws ! (?r - Suc i)"
      by blast
    then show ?thesis
    proof cases
      case keep
      with False show ?thesis by simp
    next
      case move
      have e: "(w # ws) ! (?r - i) = ws ! (?r - Suc i)"
        using move(1) by (simp add: nth_Cons')
      have "(w # ws) ! j < ws ! (?r - Suc i)" if "j < ?r - i" for j
      proof (cases j)
        case 0
        with move(3) show ?thesis by simp
      next
        case (Suc j')
        with that move(1) have "j' < ?r - Suc i" by simp
        with move(4) Suc show ?thesis by simp
      qed
      with False move e show ?thesis by simp
    qed
  qed
qed

lemma np_argmax_first:
  assumes "j < np_argmax (map Fin ws)"
  shows "ws ! j < ws ! np_argmax (map Fin ws)"
proof (cases ws)
  case Nil
  with assms show ?thesis by (simp add: np_argmax_def)
next
  case (Cons w ws')
  let ?r = "argmax_scan (Fin w) 0 1 (map Fin ws')"
  have r: "np_argmax (map Fin ws) = ?r" by (simp add: Cons np_argmax_def)
  from argmax_scan_first [of w 0 1 ws'] assms r
  have m: "1 \<le> ?r" "w < ws' ! (?r - 1)" "\<forall>j < ?r - 1. ws' ! j < ws' ! (?r - 1)"
    by auto
  have e: "ws ! ?r = ws' ! (?r - 1)"
    using m(1) by (simp add: Cons nth_Cons')
  show ?thesis
  proof (cases j)
    case 0
    with m(2) e r show ?thesis by (simp add: Cons)
  next
    case (Suc j')
    with assms r have "j' < ?r - 1" by simp
    with m(3) e r Suc show ?thesis by (simp add: Cons)
  qed
qed

text \<open>
  Round \<open>k + 1\<close> in full: its candidates are the grid over the bracket left by round
  \<open>k\<close>, its p-values are those of \<open>p_values_arr\<close> on these candidates with the mask, they
  are finite and not negative, and the index kept is that of their first maximum.
\<close>

lemma grid_search_round_full:
  assumes "0 \<le> c1" "0 \<le> c2"
  shows "\<exists>ps.
           p_values_arr c1 c2 idx
             (np_linspace (inf_bound (grid_search k c1 c2 idx))
                (sup_bound (grid_search k c1 c2 idx)) nuisance_num) = map Fin ps \<and>
           last_round (grid_search (Suc k) c1 c2 idx) =
             Some (np_linspace (inf_bound (grid_search k c1 c2 idx))
                     (sup_bound (grid_search k c1 c2 idx)) nuisance_num,
                   map Fin ps, np_argmax (map Fin ps)) \<and>
           length ps = nuisance_num \<and>
           (\<forall>p \<in> set ps. 0 \<le> p) \<and>
           np_argmax (map Fin ps) < nuisance_num \<and>
           (\<forall>j < nuisance_num. ps ! j \<le> ps ! np_argmax (map Fin ps)) \<and>
           (\<forall>j < np_argmax (map Fin ps). ps ! j < ps ! np_argmax (map Fin ps))"
proof -
  let ?nuis = "np_linspace (inf_bound (grid_search k c1 c2 idx))
                 (sup_bound (grid_search k c1 c2 idx)) nuisance_num"
  from grid_search_round [OF assms, of k idx] obtain nuisance_arr ps where
    r: "last_round (grid_search (Suc k) c1 c2 idx) =
          Some (nuisance_arr, map Fin ps, np_argmax (map Fin ps))"
    and len: "length ps = nuisance_num" and nn: "\<forall>p \<in> set ps. 0 \<le> p"
    by blast
  have "last_round (grid_search (Suc k) c1 c2 idx) =
          Some (?nuis, p_values_arr c1 c2 idx ?nuis, np_argmax (p_values_arr c1 c2 idx ?nuis))"
    using grid_search_Suc_last_round [of k c1 c2 idx] by (simp add: Let_def)
  with r have n: "nuisance_arr = ?nuis" and pv: "p_values_arr c1 c2 idx ?nuis = map Fin ps"
    by simp_all
  have ne: "ps \<noteq> []" using len by (auto simp: nuisance_num_def)
  have i: "np_argmax (map Fin ps) < nuisance_num"
    using np_argmax_less [of "map Fin ps"] ne len by simp
  have mx: "\<forall>j < nuisance_num. ps ! j \<le> ps ! np_argmax (map Fin ps)"
    using np_argmax_max [OF ne] len by simp
  have fst: "\<forall>j < np_argmax (map Fin ps). ps ! j < ps ! np_argmax (map Fin ps)"
    using np_argmax_first by blast
  from r n pv len nn i mx fst show ?thesis by blast
qed

text \<open>
  C5. The bracket starts as \<open>[0, 1]\<close>. Before any round \<open>k + 1\<close> it is a pair of finite
  bounds \<open>lo \<le> hi\<close> inside \<open>[0, 1]\<close>. The candidates of the round are the \<open>nuisance_num\<close>
  evenly spaced points from \<open>lo\<close> to \<open>hi\<close>, both included; the p-values of the round are
  those that \<open>p_values_arr\<close> computes for these candidates and the mask, one per
  candidate; \<open>i\<close> is the index \<open>argmax\<close> returns on them, which for non-negative totals
  is the index of their first maximum. The new lower bound is the candidate at \<open>i - 1\<close>,
  or \<open>lo\<close> when \<open>i = 0\<close>, the new upper bound is the candidate at \<open>i + 1\<close>, or \<open>hi\<close> when
  \<open>i\<close> is the last index, and the new bracket \<open>[lo', hi']\<close> satisfies
  \<open>lo \<le> lo' \<le> hi' \<le> hi\<close>.
\<close>

theorem nuisance_bracket_narrows:
  "\<exists>lo hi lo' hi' nuisance_arr p_values i.
     inf_bound (grid_search 0 c1 c2 idx) = Fin 0 \<and>
     sup_bound (grid_search 0 c1 c2 idx) = Fin 1 \<and>
     inf_bound (grid_search k c1 c2 idx) = Fin lo \<and>
     sup_bound (grid_search k c1 c2 idx) = Fin hi \<and>
     inf_bound (grid_search (Suc k) c1 c2 idx) = Fin lo' \<and>
     sup_bound (grid_search (Suc k) c1 c2 idx) = Fin hi' \<and>
     0 \<le> lo \<and> lo \<le> lo' \<and> lo' \<le> hi' \<and> hi' \<le> hi \<and> hi \<le> 1 \<and>
     last_round (grid_search (Suc k) c1 c2 idx) = Some (nuisance_arr, p_values, i) \<and>
     nuisance_arr =
       map (\<lambda>j. Fin (lo + real j * (hi - lo) / real (nuisance_num - 1))) [0..<nuisance_num] \<and>
     hd nuisance_arr = Fin lo \<and> last nuisance_arr = Fin hi \<and>
     p_values = p_values_arr c1 c2 idx nuisance_arr \<and>
     length p_values = nuisance_num \<and>
     i = np_argmax p_values \<and> i < nuisance_num \<and>
     (0 \<le> c1 \<and> 0 \<le> c2 \<longrightarrow>
        (\<exists>ps. p_values = map Fin ps \<and>
              (\<forall>j < nuisance_num. ps ! j \<le> ps ! i) \<and> (\<forall>j < i. ps ! j < ps ! i))) \<and>
     Fin lo' = (if 0 < i then nuisance_arr ! (i - 1) else Fin lo) \<and>
     Fin hi' = (if i < nuisance_num - 1 then nuisance_arr ! (i + 1) else Fin hi)"
proof -
  let ?s = "grid_search k c1 c2 idx"
  obtain lo hi where b: "inf_bound ?s = Fin lo" "sup_bound ?s = Fin hi"
      "0 \<le> lo" "lo \<le> hi" "hi \<le> 1"
    using grid_search_bracket [of k c1 c2 idx] by blast
  let ?nuis = "np_linspace (Fin lo) (Fin hi) nuisance_num"
  let ?pv = "p_values_arr c1 c2 idx ?nuis"
  obtain lo' hi' where b': "inf_bound (grid_round c1 c2 idx ?s) = Fin lo'"
      "sup_bound (grid_round c1 c2 idx ?s) = Fin hi'" "lo \<le> lo'" "lo' \<le> hi'" "hi' \<le> hi"
    using grid_round_bracket [OF b(1,2,4), of c1 c2 idx] by blast
  note n = grid_round_neighbours [OF b(1,2), of c1 c2 idx]
  have e: "?nuis = map (\<lambda>j. Fin (lo + real j * (hi - lo) / real (nuisance_num - 1))) [0..<nuisance_num]"
    by (rule np_linspace_eq) (simp add: nuisance_num_def)
  have h: "hd ?nuis = Fin lo"
    using np_linspace_nth [of 0 nuisance_num lo hi]
    by (simp add: hd_conv_nth nuisance_num_def flip: length_0_conv)
  have l: "last ?nuis = Fin hi"
    by (simp add: np_linspace_last nuisance_num_def)
  have len: "length ?pv = nuisance_num" by simp
  have mx: "\<exists>ps. ?pv = map Fin ps \<and>
              (\<forall>j < nuisance_num. ps ! j \<le> ps ! np_argmax ?pv) \<and>
              (\<forall>j < np_argmax ?pv. ps ! j < ps ! np_argmax ?pv)"
    if "0 \<le> c1 \<and> 0 \<le> c2"
  proof -
    from that grid_search_round_full [of c1 c2 idx k] obtain ps where
      "?pv = map Fin ps" "\<forall>j < nuisance_num. ps ! j \<le> ps ! np_argmax (map Fin ps)"
      "\<forall>j < np_argmax (map Fin ps). ps ! j < ps ! np_argmax (map Fin ps)"
      unfolding b by blast
    then show ?thesis by auto
  qed
  have 1: "inf_bound (grid_search 0 c1 c2 idx) = Fin 0 \<and>
     sup_bound (grid_search 0 c1 c2 idx) = Fin 1 \<and>
     inf_bound (grid_search k c1 c2 idx) = Fin lo \<and>
     sup_bound (grid_search k c1 c2 idx) = Fin hi \<and>
     inf_bound (grid_search (Suc k) c1 c2 idx) = Fin lo' \<and>
     sup_bound (grid_search (Suc k) c1 c2 idx) = Fin hi' \<and>
     0 \<le> lo \<and> lo \<le> lo' \<and> lo' \<le> hi' \<and> hi' \<le> hi \<and> hi \<le> 1 \<and>
     last_round (grid_search (Suc k) c1 c2 idx) = Some (?nuis, ?pv, np_argmax ?pv)"
    using b b' n(1) by (simp add: initial_state_def)
  have 2: "hd ?nuis = Fin lo \<and> last ?nuis = Fin hi \<and>
     ?pv = p_values_arr c1 c2 idx ?nuis \<and>
     length ?pv = nuisance_num \<and>
     np_argmax ?pv = np_argmax ?pv \<and> np_argmax ?pv < nuisance_num \<and>
     (0 \<le> c1 \<and> 0 \<le> c2 \<longrightarrow>
        (\<exists>ps. ?pv = map Fin ps \<and>
              (\<forall>j < nuisance_num. ps ! j \<le> ps ! np_argmax ?pv) \<and>
              (\<forall>j < np_argmax ?pv. ps ! j < ps ! np_argmax ?pv))) \<and>
     Fin lo' = (if 0 < np_argmax ?pv then ?nuis ! (np_argmax ?pv - 1) else Fin lo) \<and>
     Fin hi' = (if np_argmax ?pv < nuisance_num - 1 then ?nuis ! (np_argmax ?pv + 1) else Fin hi)"
    using mx n(2) n(3) [unfolded b'(1) Let_def] n(4) [unfolded b'(2) Let_def] h l len
    by simp
  have "inf_bound (grid_search 0 c1 c2 idx) = Fin 0 \<and>
     sup_bound (grid_search 0 c1 c2 idx) = Fin 1 \<and>
     inf_bound (grid_search k c1 c2 idx) = Fin lo \<and>
     sup_bound (grid_search k c1 c2 idx) = Fin hi \<and>
     inf_bound (grid_search (Suc k) c1 c2 idx) = Fin lo' \<and>
     sup_bound (grid_search (Suc k) c1 c2 idx) = Fin hi' \<and>
     0 \<le> lo \<and> lo \<le> lo' \<and> lo' \<le> hi' \<and> hi' \<le> hi \<and> hi \<le> 1 \<and>
     last_round (grid_search (Suc k) c1 c2 idx) = Some (?nuis, ?pv, np_argmax ?pv) \<and>
     ?nuis =
       map (\<lambda>j. Fin (lo + real j * (hi - lo) / real (nuisance_num - 1))) [0..<nuisance_num] \<and>
     hd ?nuis = Fin lo \<and> last ?nuis = Fin hi \<and>
     ?pv = p_values_arr c1 c2 idx ?nuis \<and>
     length ?pv = nuisance_num \<and>
     np_argmax ?pv = np_argmax ?pv \<and> np_argmax ?pv < nuisance_num \<and>
     (0 \<le> c1 \<and> 0 \<le> c2 \<longrightarrow>
        (\<exists>ps. ?pv = map Fin ps \<and>
              (\<forall>j < nuisance_num. ps ! j \<le> ps ! np_argmax ?pv) \<and>
              (\<forall>j < np_argmax ?pv. ps ! j < ps ! np_argmax ?pv))) \<and>
     Fin lo' = (if 0 < np_argmax ?pv then ?nuis ! (np_argmax ?pv - 1) else Fin lo) \<and>
     Fin hi' = (if np_argmax ?pv < nuisance_num - 1 then ?nuis ! (np_argmax ?pv + 1) else Fin hi)"
    using 1 e 2 by blast
  then show ?thesis by blast
qed

theorem nuisance_bracket_narrows_witness:
  "\<exists>lo' hi' nuisance_arr ps i.
     inf_bound (grid_search (Suc 0) 1 1 [[True, False], [False, True]]) = Fin lo' \<and>
     sup_bound (grid_search (Suc 0) 1 1 [[True, False], [False, True]]) = Fin hi' \<and>
     0 \<le> lo' \<and> lo' \<le> hi' \<and> hi' \<le> 1 \<and>
     last_round (grid_search (Suc 0) 1 1 [[True, False], [False, True]]) =
       Some (nuisance_arr, map Fin ps, i) \<and>
     nuisance_arr = map (\<lambda>j. Fin (0 + real j * (1 - 0) / real (nuisance_num - 1))) [0..<nuisance_num] \<and>
     map Fin ps = p_values_arr 1 1 [[True, False], [False, True]] nuisance_arr \<and>
     i = np_argmax (map Fin ps) \<and> list_all (\<lambda>p. p \<le> ps ! i) ps \<and>
     Fin lo' = (if 0 < i then nuisance_arr ! (i - 1) else Fin 0) \<and>
     Fin hi' = (if i < nuisance_num - 1 then nuisance_arr ! (i + 1) else Fin 1)"
proof -
  let ?idx = "[[True, False], [False, True]]"
  from nuisance_bracket_narrows [of 1 1 ?idx 0]
  obtain lo hi lo' hi' nuisance_arr p_values i where
    f: "inf_bound (grid_search 0 1 1 ?idx) = Fin lo"
       "sup_bound (grid_search 0 1 1 ?idx) = Fin hi"
       "inf_bound (grid_search (Suc 0) 1 1 ?idx) = Fin lo'"
       "sup_bound (grid_search (Suc 0) 1 1 ?idx) = Fin hi'"
       "0 \<le> lo" "lo \<le> lo'" "lo' \<le> hi'" "hi' \<le> hi" "hi \<le> 1"
       "last_round (grid_search (Suc 0) 1 1 ?idx) = Some (nuisance_arr, p_values, i)"
       "nuisance_arr =
          map (\<lambda>j. Fin (lo + real j * (hi - lo) / real (nuisance_num - 1))) [0..<nuisance_num]"
       "p_values = p_values_arr 1 1 ?idx nuisance_arr"
       "length p_values = nuisance_num"
       "i = np_argmax p_values"
       "Fin lo' = (if 0 < i then nuisance_arr ! (i - 1) else Fin lo)"
       "Fin hi' = (if i < nuisance_num - 1 then nuisance_arr ! (i + 1) else Fin hi)"
    and imp: "(0::int) \<le> 1 \<and> (0::int) \<le> 1 \<longrightarrow>
        (\<exists>ps. p_values = map Fin ps \<and>
              (\<forall>j < nuisance_num. ps ! j \<le> ps ! i) \<and> (\<forall>j < i. ps ! j < ps ! i))"
    by blast
  from imp obtain ps where g: "p_values = map Fin ps" "\<forall>j < nuisance_num. ps ! j \<le> ps ! i"
    by auto
  from f(1,2) have z: "lo = 0" "hi = 1" by (simp_all add: initial_state_def)
  from g f(13) have la: "list_all (\<lambda>p. p \<le> ps ! i) ps"
    by (auto simp: list_all_length)
  have "inf_bound (grid_search (Suc 0) 1 1 ?idx) = Fin lo' \<and>
     sup_bound (grid_search (Suc 0) 1 1 ?idx) = Fin hi' \<and>
     0 \<le> lo' \<and> lo' \<le> hi' \<and> hi' \<le> 1 \<and>
     last_round (grid_search (Suc 0) 1 1 ?idx) = Some (nuisance_arr, map Fin ps, i) \<and>
     nuisance_arr = map (\<lambda>j. Fin (0 + real j * (1 - 0) / real (nuisance_num - 1))) [0..<nuisance_num] \<and>
     map Fin ps = p_values_arr 1 1 ?idx nuisance_arr \<and>
     i = np_argmax (map Fin ps) \<and> list_all (\<lambda>p. p \<le> ps ! i) ps \<and>
     Fin lo' = (if 0 < i then nuisance_arr ! (i - 1) else Fin 0) \<and>
     Fin hi' = (if i < nuisance_num - 1 then nuisance_arr ! (i + 1) else Fin 1)"
    using f(3,4,6,7,8,10,11,12,14,15,16) [unfolded z g(1)] f(5,9) [unfolded z] la
    by (intro conjI) linarith+
  then show ?thesis by blast
qed




end
